theory Spec2Isabelle
  imports Main "HOL-Library.AList"
begin

section \<open>The link transformer of quartz/plugins/transformers/links.ts\<close>

text \<open>
  A shallow embedding of \<^verbatim>\<open>CrawlLinks\<close>: the visitor that rewrites every hyperlink and
  resource element of one page's hast tree and collects the page's outgoing links.
  JavaScript strings are modelled as \<^typ>\<open>string\<close>, read as the bytes of their UTF-8
  encoding; every string operation the source uses (\<^verbatim>\<open>startsWith\<close>, \<^verbatim>\<open>!==\<close>, \<^verbatim>\<open>join\<close>,
  \<^verbatim>\<open>path.basename\<close>, \<^verbatim>\<open>decodeURIComponent\<close>) has the same meaning on that encoding for
  well-formed strings.
\<close>

subsection \<open>Data model\<close>

text \<open>Exceptions of the platform that can leave the visitor.\<close>

datatype error = URIError | TypeError

text \<open>hast property values: a string, a list of strings (\<^verbatim>\<open>className\<close>), a boolean.\<close>

datatype propval = Str string | StrList "string list" | Bool bool

text \<open>
  hast nodes. \<^verbatim>\<open>properties\<close> is an association list in insertion order, as the keys of a
  JavaScript object are.
\<close>

datatype node =
    Element (tagName: string) (properties: "(string \<times> propval) list") (children: "node list")
  | Text (textValue: string)
  | Comment string

datatype root = Root "node list"

text \<open>
  The three descriptor shapes \<^verbatim>\<open>Image | Emoji | Path\<close>, and \<^verbatim>\<open>Appendable\<close>. The TypeScript
  type promises a \<^verbatim>\<open>type\<close> field on every \<^verbatim>\<open>Appendable\<close>; at run time the field is there
  only when somebody has written it, so the model keeps both cases apart. A tag, when
  present, is taken to agree with the shape it tags.
\<close>

datatype descriptor = ImageD string | EmojiD string | PathD string string

datatype tag = TagImage | TagEmoji | TagPath

datatype appendable = Tagged descriptor | Untagged descriptor

fun descOf :: "appendable \<Rightarrow> descriptor" where
  "descOf (Tagged d) = d"
| "descOf (Untagged d) = d"

fun typeOf :: "appendable \<Rightarrow> tag option" where
  "typeOf (Tagged (ImageD _)) = Some TagImage"
| "typeOf (Tagged (EmojiD _)) = Some TagEmoji"
| "typeOf (Tagged (PathD _ _)) = Some TagPath"
| "typeOf (Untagged _) = None"

text \<open>An argument of TypeScript type \<^verbatim>\<open>string | T\<close>.\<close>

datatype 'a string_or = AString string | AnObject 'a

text \<open>
  The exported constructors. \<^verbatim>\<open>Image\<close> and \<^verbatim>\<open>Emoji\<close> build a tagged object from a string
  and hand an object back as it came; \<^verbatim>\<open>Path\<close> hands its argument back as it came (the
  \<^verbatim>\<open>as\<close> cast adds no field).
\<close>

definition Image :: "appendable string_or \<Rightarrow> appendable" where
  "Image src = (case src of AnObject obj \<Rightarrow> obj | AString s \<Rightarrow> Tagged (ImageD s))"

definition Emoji :: "appendable string_or \<Rightarrow> appendable" where
  "Emoji txt = (case txt of AnObject obj \<Rightarrow> obj | AString s \<Rightarrow> Tagged (EmojiD s))"

definition Path :: "appendable \<Rightarrow> appendable" where
  "Path p = p"

text \<open>
  A \<^verbatim>\<open>RegExp\<close> is modelled by what \<^verbatim>\<open>href.match(regex)\<close> returns: \<^verbatim>\<open>null\<close>, or the array of
  the whole match followed by the captured groups (a group that took no part in the match
  is \<^verbatim>\<open>undefined\<close>).
\<close>

type_synonym regexp = "string \<Rightarrow> string option list option"

type_synonym sub = "regexp \<times> appendable"

datatype strategy = absolute | relative | shortest

record transformOptions =
  strategy :: strategy
  allSlugs :: "string list"

record options =
  markdownLinkResolution :: strategy
  prettyLinks :: bool
  openLinksInNewTab :: bool
  lazyLoad :: bool
  externalLinkIcon :: bool
  substitutions :: "sub list option"

definition defaultOptions :: options where
  "defaultOptions = \<lparr> markdownLinkResolution = absolute, prettyLinks = True,
     openLinksInNewTab = False, lazyLoad = False, externalLinkIcon = True,
     substitutions = None \<rparr>"

text \<open>
  What the visitor imports and does not define: \<^verbatim>\<open>URL.canParse\<close>, \<^verbatim>\<open>new URL(d, b).pathname\<close>
  (which throws a TypeError on an invalid URL) and, from \<^verbatim>\<open>util/path\<close>, \<^verbatim>\<open>transformLink\<close>,
  \<^verbatim>\<open>stripSlashes\<close>, \<^verbatim>\<open>splitAnchor\<close> and \<^verbatim>\<open>simplifySlug\<close>. They are parameters of the model.
\<close>

record env =
  canParse :: "string \<Rightarrow> bool"
  urlPathname :: "string \<Rightarrow> string \<Rightarrow> error + string"
  transformLink :: "string \<Rightarrow> string \<Rightarrow> transformOptions \<Rightarrow> error + string"
  stripSlashes :: "string \<Rightarrow> bool \<Rightarrow> string"
  splitAnchor :: "string \<Rightarrow> string \<times> string"
  simplifySlug :: "string \<Rightarrow> string"

subsection \<open>Platform string functions\<close>

definition startsWith :: "string \<Rightarrow> string \<Rightarrow> bool" where
  "startsWith s p = (take (length p) s = p)"

definition endsWith :: "string \<Rightarrow> string \<Rightarrow> bool" where
  "endsWith s p = (length p \<le> length s \<and> drop (length s - length p) s = p)"

text \<open>
  \<^verbatim>\<open>path.basename\<close> of the POSIX \<^verbatim>\<open>path\<close> module: trailing slashes are dropped, then the
  text after the last remaining slash is returned.
\<close>

definition basename :: "string \<Rightarrow> string" where
  "basename p = rev (takeWhile (\<lambda>c. c \<noteq> CHR ''/'') (dropWhile (\<lambda>c. c = CHR ''/'') (rev p)))"

text \<open>
  \<^verbatim>\<open>decodeURIComponent\<close> (ECMAScript, Decode with an empty preserved set). An escape is
  \<^verbatim>\<open>%\<close> and two hexadecimal digits; an octet below 128 stands for itself, a lead octet of
  a multi-byte sequence must be followed by the escapes of its continuation octets and
  the whole must be well-formed UTF-8. Anything else throws a URIError.
\<close>

definition hexDigit :: "char \<Rightarrow> nat option" where
  "hexDigit c = (let n = (of_char c :: nat) in
     if 48 \<le> n \<and> n \<le> 57 then Some (n - 48)
     else if 65 \<le> n \<and> n \<le> 70 then Some (n - 55)
     else if 97 \<le> n \<and> n \<le> 102 then Some (n - 87)
     else None)"

fun parseHexOctet :: "string \<Rightarrow> nat option" where
  "parseHexOctet (p # a # b # _) =
     (if p = CHR ''%'' then
        (case hexDigit a of None \<Rightarrow> None
         | Some x \<Rightarrow> (case hexDigit b of None \<Rightarrow> None | Some y \<Rightarrow> Some (16 * x + y)))
      else None)"
| "parseHexOctet _ = None"

fun takeOctets :: "nat \<Rightarrow> string \<Rightarrow> (nat list \<times> string) option" where
  "takeOctets 0 s = Some ([], s)"
| "takeOctets (Suc n) s =
     (case parseHexOctet s of None \<Rightarrow> None
      | Some b \<Rightarrow> (case takeOctets n (drop 3 s) of None \<Rightarrow> None
                   | Some (bs, r) \<Rightarrow> Some (b # bs, r)))"

definition leadingOnes :: "nat \<Rightarrow> nat" where
  "leadingOnes b = (if b < 128 then 0 else if b < 192 then 1 else if b < 224 then 2
     else if b < 240 then 3 else if b < 248 then 4 else 5)"

definition cont :: "nat \<Rightarrow> bool" where
  "cont b = (128 \<le> b \<and> b \<le> 191)"

fun validUTF8 :: "nat list \<Rightarrow> bool" where
  "validUTF8 [a, b] = (194 \<le> a \<and> a \<le> 223 \<and> cont b)"
| "validUTF8 [a, b, c] =
     (((a = 224 \<and> 160 \<le> b \<and> b \<le> 191) \<or> (225 \<le> a \<and> a \<le> 236 \<and> cont b)
       \<or> (a = 237 \<and> 128 \<le> b \<and> b \<le> 159) \<or> (238 \<le> a \<and> a \<le> 239 \<and> cont b)) \<and> cont c)"
| "validUTF8 [a, b, c, d] =
     (((a = 240 \<and> 144 \<le> b \<and> b \<le> 191) \<or> (241 \<le> a \<and> a \<le> 243 \<and> cont b)
       \<or> (a = 244 \<and> 128 \<le> b \<and> b \<le> 143)) \<and> cont c \<and> cont d)"
| "validUTF8 _ = False"

lemma takeOctets_length: "takeOctets n s = Some (bs, r) \<Longrightarrow> length r \<le> length s"
proof (induction n arbitrary: s bs r)
  case 0
  then show ?case by simp
next
  case (Suc n)
  from Suc.prems obtain bs' where "takeOctets n (drop 3 s) = Some (bs', r)"
    by (auto split: option.splits)
  from Suc.IH [OF this] show ?case by simp
qed

function decodeURIComponent :: "string \<Rightarrow> error + string" where
  "decodeURIComponent [] = Inr []"
| "decodeURIComponent (c # s) =
     (if c \<noteq> CHR ''%'' then
        (case decodeURIComponent s of Inl e \<Rightarrow> Inl e | Inr r \<Rightarrow> Inr (c # r))
      else
        (case parseHexOctet (c # s) of
           None \<Rightarrow> Inl URIError
         | Some b \<Rightarrow>
           (if leadingOnes b = 0 then
              (case decodeURIComponent (drop 2 s) of
                 Inl e \<Rightarrow> Inl e | Inr r \<Rightarrow> Inr (char_of b # r))
            else if leadingOnes b = 1 \<or> leadingOnes b > 4 then Inl URIError
            else
              (case takeOctets (leadingOnes b - 1) (drop 2 s) of
                 None \<Rightarrow> Inl URIError
               | Some (bs, rest) \<Rightarrow>
                 (if validUTF8 (b # bs) then
                    (case decodeURIComponent rest of
                       Inl e \<Rightarrow> Inl e | Inr r \<Rightarrow> Inr (map char_of (b # bs) @ r))
                  else Inl URIError)))))"
  by pat_completeness auto
termination
proof (relation "measure length")
  show "wf (measure length)" by simp
next
  fix c :: char and s :: string
  show "(s, c # s) \<in> measure length" by simp
next
  fix c :: char and s :: string
  show "(drop 2 s, c # s) \<in> measure length" by simp
next
  fix c :: char and s rest :: string and b :: nat and x :: "nat list \<times> string" and bs :: "nat list"
  assume "takeOctets (leadingOnes b - 1) (drop 2 s) = Some x" and "(bs, rest) = x"
  then have "length rest \<le> length (drop 2 s)"
    using takeOctets_length [of "leadingOnes b - 1" "drop 2 s" bs rest] by simp
  then show "(rest, c # s) \<in> measure length" by simp
qed

subsection \<open>The substitution rules\<close>

text \<open>
  \<^verbatim>\<open>Array.prototype.every\<close> with a callback that updates captured variables: the callback
  returns whether to go on, and the variables it has written.
\<close>

fun every :: "('a \<Rightarrow> 's \<Rightarrow> bool \<times> 's) \<Rightarrow> 'a list \<Rightarrow> 's \<Rightarrow> 's" where
  "every f [] st = st"
| "every f (x # xs) st = (case f x st of (go, st') \<Rightarrow> if go then every f xs st' else st')"

text \<open>The variables \<^verbatim>\<open>dest\<close>, \<^verbatim>\<open>refIcon\<close> and \<^verbatim>\<open>matched\<close> that the callback writes.\<close>

record linkState =
  dest :: string
  refIcon :: "node option"
  matched :: bool

text \<open>\<^verbatim>\<open>parts.slice(1).join("")\<close>, where \<^verbatim>\<open>join\<close> writes nothing for \<^verbatim>\<open>undefined\<close>.\<close>

definition joinGroups :: "string option list \<Rightarrow> string" where
  "joinGroups parts = concat (map (\<lambda>g. case g of None \<Rightarrow> [] | Some s \<Rightarrow> s) (tl parts))"

text \<open>The \<^verbatim>\<open>switch (sub.type)\<close>: no case is taken when the field is missing.\<close>

definition iconFor :: "appendable \<Rightarrow> node option \<Rightarrow> node option" where
  "iconFor sub old =
     (case typeOf sub of
        Some TagImage \<Rightarrow>
          (case descOf sub of
             ImageD src \<Rightarrow> Some (Element ''img''
               [(''src'', Str src), (''style'', Str ''max-width:1em;max-height:1em'')] [])
           | _ \<Rightarrow> old)
      | Some TagEmoji \<Rightarrow>
          (case descOf sub of EmojiD txt \<Rightarrow> Some (Text txt) | _ \<Rightarrow> old)
      | Some TagPath \<Rightarrow>
          (case descOf sub of
             PathD code viewbox \<Rightarrow> Some (Element ''svg''
               [(''aria-hidden'', Str ''true''), (''class'', Str ''external-icon''),
                (''style'', Str ''max-width:1em;max-height:1em''), (''viewBox'', Str viewbox)]
               [Element ''path'' [(''d'', Str code)] []])
           | _ \<Rightarrow> old)
      | None \<Rightarrow> old)"

definition subCallback :: "string \<Rightarrow> sub \<Rightarrow> linkState \<Rightarrow> bool \<times> linkState" where
  "subCallback href rule st =
     (case rule of (regex, sub) \<Rightarrow>
        (case regex href of
           None \<Rightarrow> (True, st)
         | Some parts \<Rightarrow>
             (False, \<lparr> dest = joinGroups parts, refIcon = iconFor sub (refIcon st),
                       matched = True \<rparr>)))"

definition substitute :: "sub list option \<Rightarrow> string \<Rightarrow> linkState" where
  "substitute subs href =
     (let st = \<lparr> dest = href, refIcon = None, matched = False \<rparr>
      in case subs of None \<Rightarrow> st | Some rules \<Rightarrow> every (subCallback href) rules st)"

text \<open>"A substitution rule matched": some rule's pattern matches the raw destination.\<close>

definition ruleMatches :: "sub list option \<Rightarrow> string \<Rightarrow> bool" where
  "ruleMatches subs href =
     (case subs of None \<Rightarrow> False | Some rules \<Rightarrow> list_ex (\<lambda>r. fst r href \<noteq> None) rules)"

subsection \<open>The visitor\<close>

definition defaultIcon :: node where
  "defaultIcon = Element ''svg''
     [(''aria-hidden'', Str ''true''), (''class'', Str ''external-icon''),
      (''style'', Str ''max-width:0.8em;max-height:0.8em''), (''viewBox'', Str ''0 0 512 512'')]
     [Element ''path''
        [(''d'', Str ''M320 0H288V64h32 82.7L201.4 265.4 178.7 288 224 333.3l22.6-22.6L448 109.3V192v32h64V192 32 0H480 320zM32 32H0V64 480v32H32 456h32V480 352 320H424v32 96H64V96h96 32V32H160 32z'')]
        []]"

text \<open>Assignment to a property: an existing key keeps its place, a new key goes last.\<close>

definition setProp :: "string \<Rightarrow> propval \<Rightarrow> (string \<times> propval) list \<Rightarrow> (string \<times> propval) list" where
  "setProp k v ps = AList.update k v ps"

definition getProp :: "(string \<times> propval) list \<Rightarrow> string \<Rightarrow> propval option" where
  "getProp ps k = map_of ps k"

text \<open>
  \<^verbatim>\<open>(node.properties.className ?? []) as string[]\<close> followed by \<^verbatim>\<open>classes.push\<close>: a missing
  property gives a fresh array; a value that is no array has no \<^verbatim>\<open>push\<close>, and the call
  throws a TypeError.
\<close>

definition classList :: "(string \<times> propval) list \<Rightarrow> error + string list" where
  "classList ps = (case getProp ps ''className'' of
       None \<Rightarrow> Inr []
     | Some (StrList cs) \<Rightarrow> Inr cs
     | Some _ \<Rightarrow> Inl TypeError)"

text \<open>\<^verbatim>\<open>outgoing.add\<close> on a \<^verbatim>\<open>Set\<close>, which keeps insertion order.\<close>

definition addSlug :: "string \<Rightarrow> string list \<Rightarrow> string list" where
  "addSlug s out = (if s \<in> set out then out else out @ [s])"

text \<open>\<^verbatim>\<open>const isInternal = !(URL.canParse(dest) || dest.startsWith("#"))\<close>\<close>

definition isInternal :: "env \<Rightarrow> string \<Rightarrow> bool" where
  "isInternal E d = (\<not> (canParse E d \<or> startsWith d ''#''))"

text \<open>
  Lines 193 to 202: the canonical path of the rewritten destination against the synthetic
  base, an implicit \<^verbatim>\<open>index\<close> after a trailing slash, the leading slash stripped, the
  percent-decoding, and the simple slug. The result is the pair of \<^verbatim>\<open>full\<close> and \<^verbatim>\<open>simple\<close>.
\<close>

definition normalizeDest :: "env \<Rightarrow> string \<Rightarrow> string \<Rightarrow> error + (string \<times> string)" where
  "normalizeDest E curSlug d =
     (case urlPathname E d (''https://base.com/'' @ stripSlashes E curSlug True) of
        Inl e \<Rightarrow> Inl e
      | Inr canonicalDest \<Rightarrow>
        (let destCanonical = fst (splitAnchor E canonicalDest);
             destCanonical = (if endsWith destCanonical ''/''
                              then destCanonical @ ''index'' else destCanonical)
         in case decodeURIComponent (stripSlashes E destCanonical True) of
              Inl e \<Rightarrow> Inl e
            | Inr full \<Rightarrow> Inr (full, simplifySlug E full)))"

text \<open>
  The body of \<^verbatim>\<open>if (isInternal)\<close>: the rewritten href, the full slug and the simple slug.
\<close>

definition resolveInternal ::
  "env \<Rightarrow> transformOptions \<Rightarrow> string \<Rightarrow> string \<Rightarrow> string \<Rightarrow> error + (string \<times> string \<times> string)" where
  "resolveInternal E topts slug curSlug d =
     (case transformLink E slug d topts of
        Inl e \<Rightarrow> Inl e
      | Inr d' \<Rightarrow>
        (case normalizeDest E curSlug d' of
           Inl e \<Rightarrow> Inl e
         | Inr (full, simple) \<Rightarrow> Inr (d', full, simple)))"

text \<open>The part of the \<^verbatim>\<open>a\<close> branch before the internal resolution (lines 83 to 180).\<close>

definition withIcon :: "options \<Rightarrow> bool \<Rightarrow> linkState \<Rightarrow> node list \<Rightarrow> node list" where
  "withIcon opts isExternal st cs =
     (if (isExternal \<and> externalLinkIcon opts) \<or> matched st
      then cs @ [case refIcon st of Some icon \<Rightarrow> icon | None \<Rightarrow> defaultIcon]
      else cs)"

definition withAlias :: "string \<Rightarrow> node list \<Rightarrow> string list \<Rightarrow> string list" where
  "withAlias d cs classes =
     (case cs of [Text v] \<Rightarrow> if v \<noteq> d then classes @ [''alias''] else classes
      | _ \<Rightarrow> classes)"

definition prettify :: "options \<Rightarrow> bool \<Rightarrow> node list \<Rightarrow> node list" where
  "prettify opts internal cs =
     (case cs of
        [Text v] \<Rightarrow> if prettyLinks opts \<and> internal \<and> \<not> startsWith v ''#''
                   then [Text (basename v)] else cs
      | _ \<Rightarrow> cs)"

text \<open>
  The \<^verbatim>\<open>a\<close> branch up to the end of \<^verbatim>\<open>if (isInternal)\<close> (lines 83 to 205): the properties,
  the children and the outgoing set it leaves.
\<close>

definition linkCore ::
  "env \<Rightarrow> options \<Rightarrow> transformOptions \<Rightarrow> string \<Rightarrow> string \<Rightarrow> string \<Rightarrow>
   (string \<times> propval) list \<Rightarrow> node list \<Rightarrow> string list \<Rightarrow>
   error + ((string \<times> propval) list \<times> node list \<times> string list)" where
  "linkCore E opts topts slug curSlug href ps cs out =
     (let st = substitute (substitutions opts) href;
          d = dest st;
          ps = setProp ''href'' (Str d) ps
      in case classList ps of
           Inl e \<Rightarrow> Inl e
         | Inr classes \<Rightarrow>
           (let isExternal = canParse E d;
                classes = classes @ [if isExternal \<or> matched st then ''external'' else ''internal''];
                cs = withIcon opts isExternal st cs;
                classes = withAlias d cs classes;
                ps = setProp ''className'' (StrList classes) ps;
                ps = (if isExternal \<and> openLinksInNewTab opts
                      then setProp ''target'' (Str ''_blank'') ps else ps)
            in if isInternal E d then
                 (case resolveInternal E topts slug curSlug d of
                    Inl e \<Rightarrow> Inl e
                  | Inr (d', full, simple) \<Rightarrow>
                      Inr (setProp ''data-slug'' (Str full) (setProp ''href'' (Str d') ps),
                           cs, addSlug simple out))
               else Inr (ps, cs, out)))"

text \<open>The whole \<^verbatim>\<open>a\<close> branch: the pretty-link rewriting (lines 207 to 216) comes last.\<close>

definition rewriteLink ::
  "env \<Rightarrow> options \<Rightarrow> transformOptions \<Rightarrow> string \<Rightarrow> string \<Rightarrow> string \<Rightarrow>
   (string \<times> propval) list \<Rightarrow> node list \<Rightarrow> string list \<Rightarrow> error + (node \<times> string list)" where
  "rewriteLink E opts topts slug curSlug href ps cs out =
     (case linkCore E opts topts slug curSlug href ps cs out of
        Inl e \<Rightarrow> Inl e
      | Inr (ps', cs', out') \<Rightarrow>
          Inr (Element ''a'' ps'
                 (prettify opts (isInternal E (dest (substitute (substitutions opts) href))) cs'),
               out'))"

text \<open>The branch for \<^verbatim>\<open>img\<close>, \<^verbatim>\<open>video\<close>, \<^verbatim>\<open>audio\<close> and \<^verbatim>\<open>iframe\<close> (lines 220 to 240).\<close>

definition rewriteResource ::
  "env \<Rightarrow> options \<Rightarrow> transformOptions \<Rightarrow> string \<Rightarrow> string \<Rightarrow> string \<Rightarrow>
   (string \<times> propval) list \<Rightarrow> node list \<Rightarrow> error + node" where
  "rewriteResource E opts topts slug t src ps cs =
     (let ps = (if lazyLoad opts then setProp ''loading'' (Str ''lazy'') ps else ps)
      in if \<not> canParse E src then
           (case transformLink E slug src topts of
              Inl e \<Rightarrow> Inl e
            | Inr d \<Rightarrow> Inr (Element t (setProp ''src'' (Str d) ps) cs))
         else Inr (Element t ps cs))"

text \<open>The callback handed to \<^verbatim>\<open>visit(tree, "element", ...)\<close>.\<close>

definition visitor ::
  "env \<Rightarrow> options \<Rightarrow> transformOptions \<Rightarrow> string \<Rightarrow> string \<Rightarrow> node \<Rightarrow> string list \<Rightarrow>
   error + (node \<times> string list)" where
  "visitor E opts topts slug curSlug n out =
     (case n of
        Element t ps cs \<Rightarrow>
          (case (if t = ''a'' then
                   (case getProp ps ''href'' of
                      Some (Str href) \<Rightarrow> rewriteLink E opts topts slug curSlug href ps cs out
                    | _ \<Rightarrow> Inr (n, out))
                 else Inr (n, out)) of
             Inl e \<Rightarrow> Inl e
           | Inr (n1, out1) \<Rightarrow>
               (if tagName n1 \<in> set [''img'', ''video'', ''audio'', ''iframe''] then
                  (case getProp (properties n1) ''src'' of
                     Some (Str src) \<Rightarrow>
                       (case rewriteResource E opts topts slug (tagName n1) src
                               (properties n1) (children n1) of
                          Inl e \<Rightarrow> Inl e
                        | Inr n2 \<Rightarrow> Inr (n2, out1))
                   | _ \<Rightarrow> Inr (n1, out1))
                else Inr (n1, out1)))
      | _ \<Rightarrow> Inr (n, out))"

subsection \<open>The traversal\<close>

text \<open>
  \<^verbatim>\<open>visit\<close> of unist-util-visit calls the visitor on a node and then walks the children the
  node has after the call, so an icon that the visitor has just appended is visited too.
  The recursion is therefore not structural; it ends because the visitor adds at most
  one icon, of at most two nodes, and only to an \<^verbatim>\<open>a\<close> element, which no icon is.
\<close>

fun weight :: "node \<Rightarrow> nat" where
  "weight (Element t ps cs) = (if t = ''a'' then 4 else 1) + sum_list (map weight cs)"
| "weight (Text _) = 1"
| "weight (Comment _) = 1"

definition weights :: "node list \<Rightarrow> nat" where
  "weights ns = sum_list (map weight ns)"

lemma weights_simps [simp]:
  "weights [] = 0" "weights (n # ns) = weight n + weights ns"
  "weights (xs @ ys) = weights xs + weights ys"
  by (simp_all add: weights_def)

lemma weight_pos: "0 < weight n"
  by (cases n) simp_all

text \<open>
  The hyperlink elements of a tree that carry a string destination, in the order of the
  traversal: the destination and the element's properties.
\<close>

fun hyperlinks :: "node \<Rightarrow> (string \<times> (string \<times> propval) list) list" where
  "hyperlinks (Element t ps cs) =
     (if t = ''a'' then (case getProp ps ''href'' of Some (Str h) \<Rightarrow> [(h, ps)] | _ \<Rightarrow> [])
      else []) @ concat (map hyperlinks cs)"
| "hyperlinks (Text _) = []"
| "hyperlinks (Comment _) = []"

definition hyperlinksAll :: "node list \<Rightarrow> (string \<times> (string \<times> propval) list) list" where
  "hyperlinksAll ns = concat (map hyperlinks ns)"

lemma hyperlinksAll_simps [simp]:
  "hyperlinksAll [] = []" "hyperlinksAll (n # ns) = hyperlinks n @ hyperlinksAll ns"
  "hyperlinksAll (xs @ ys) = hyperlinksAll xs @ hyperlinksAll ys"
  by (simp_all add: hyperlinksAll_def)

definition smallIcon :: "node option \<Rightarrow> bool" where
  "smallIcon r = (case r of None \<Rightarrow> True | Some i \<Rightarrow> weight i \<le> 2 \<and> hyperlinks i = [])"

lemma iconFor_small: "smallIcon old \<Longrightarrow> smallIcon (iconFor sub old)"
  by (auto simp: iconFor_def smallIcon_def split: option.splits tag.splits descriptor.splits)

lemma subCallback_None: "regex href = None \<Longrightarrow> subCallback href (regex, sub) st = (True, st)"
  by (simp add: subCallback_def)

lemma subCallback_Some:
  "regex href = Some parts \<Longrightarrow>
   subCallback href (regex, sub) st =
     (False, \<lparr> dest = joinGroups parts, refIcon = iconFor sub (refIcon st), matched = True \<rparr>)"
  by (simp add: subCallback_def)

lemma every_small:
  "smallIcon (refIcon st) \<Longrightarrow> smallIcon (refIcon (every (subCallback href) rules st))"
proof (induction rules arbitrary: st)
  case Nil
  then show ?case by simp
next
  case (Cons r rules)
  obtain regex sub where r: "r = (regex, sub)" by (cases r)
  show ?case
  proof (cases "regex href")
    case None
    with Cons r show ?thesis by (simp add: subCallback_None)
  next
    case (Some parts)
    with Cons.prems r show ?thesis
      by (simp add: subCallback_Some iconFor_small)
  qed
qed

lemma substitute_small: "smallIcon (refIcon (substitute subs href))"
proof (cases subs)
  case None
  then show ?thesis by (simp add: substitute_def smallIcon_def)
next
  case (Some rules)
  have "smallIcon (refIcon \<lparr> dest = href, refIcon = None, matched = False \<rparr>)"
    by (simp add: smallIcon_def)
  from every_small [OF this] Some show ?thesis by (simp add: substitute_def)
qed

lemma substitute_refIcon_weight:
  "refIcon (substitute subs href) = Some i \<Longrightarrow> weight i \<le> 2"
  using substitute_small [of subs href] by (simp add: smallIcon_def)

lemma defaultIcon_weight: "weight defaultIcon = 2"
  by (simp add: defaultIcon_def)

lemma withIcon_weights:
  "weights (withIcon opts ext (substitute subs href) cs) \<le> weights cs + 2"
  using substitute_refIcon_weight [of subs href]
  by (auto simp: withIcon_def defaultIcon_weight split: option.splits)

lemma prettify_weights: "weights (prettify opts b cs) = weights cs"
  by (auto simp: prettify_def split: list.splits node.splits)

lemma rewriteLink_weights:
  "rewriteLink E opts topts slug curSlug href ps cs out = Inr (n', out') \<Longrightarrow>
   weights (children n') \<le> weights cs + 2"
  using withIcon_weights [of opts "canParse E (dest (substitute (substitutions opts) href))" "substitutions opts" href cs]
  by (auto simp: rewriteLink_def linkCore_def Let_def prettify_weights
           split: sum.splits if_splits prod.splits)

lemma visitor_weights:
  "visitor E opts topts slug curSlug n out = Inr (Element t ps cs, out') \<Longrightarrow> weights cs < weight n"
  apply (cases n)
    apply (auto simp: visitor_def rewriteResource_def Let_def weights_def[symmetric] split: sum.splits if_splits option.splits propval.splits prod.splits dest!: rewriteLink_weights)
  done


function visit ::
    "env \<Rightarrow> options \<Rightarrow> transformOptions \<Rightarrow> string \<Rightarrow> string \<Rightarrow> node \<Rightarrow> string list \<Rightarrow>
     error + (node \<times> string list)"
  and visitAll ::
    "env \<Rightarrow> options \<Rightarrow> transformOptions \<Rightarrow> string \<Rightarrow> string \<Rightarrow> node list \<Rightarrow> string list \<Rightarrow>
     error + (node list \<times> string list)"
where
  "visit E opts topts slug curSlug n out =
     (case visitor E opts topts slug curSlug n out of
        Inl e \<Rightarrow> Inl e
      | Inr (n', out') \<Rightarrow>
          (case n' of
             Element t ps cs \<Rightarrow>
               (case visitAll E opts topts slug curSlug cs out' of
                  Inl e \<Rightarrow> Inl e
                | Inr (cs', out'') \<Rightarrow> Inr (Element t ps cs', out''))
           | _ \<Rightarrow> Inr (n', out')))"
| "visitAll E opts topts slug curSlug [] out = Inr ([], out)"
| "visitAll E opts topts slug curSlug (n # ns) out =
     (case visit E opts topts slug curSlug n out of
        Inl e \<Rightarrow> Inl e
      | Inr (n', out') \<Rightarrow>
          (case visitAll E opts topts slug curSlug ns out' of
             Inl e \<Rightarrow> Inl e
           | Inr (ns', out'') \<Rightarrow> Inr (n' # ns', out'')))"
  by pat_completeness auto
termination
proof (relation "measure (\<lambda>x. case x of
          Inl (E, opts, topts, slug, curSlug, n, out) \<Rightarrow> 2 * weight n
        | Inr (E, opts, topts, slug, curSlug, ns, out) \<Rightarrow> 2 * weights ns + 1)")
  show "wf (measure (\<lambda>x. case x of
          Inl (E, opts, topts, slug, curSlug, n, out) \<Rightarrow> 2 * weight n
        | Inr (E, opts, topts, slug, curSlug, ns, out) \<Rightarrow> 2 * weights ns + 1))"
    by simp
qed (auto dest!: visitor_weights simp: weight_pos)

text \<open>
  The transformer of \<^verbatim>\<open>htmlPlugins\<close>: \<^verbatim>\<open>visit\<close> skips the root itself (it is no element), and
  \<^verbatim>\<open>file.data.links\<close> receives the outgoing set as an array.
\<close>

definition process ::
  "env \<Rightarrow> options \<Rightarrow> string list \<Rightarrow> root \<Rightarrow> string \<Rightarrow> error + (root \<times> string list)" where
  "process E opts ctxAllSlugs tree slug =
     (let curSlug = simplifySlug E slug;
          transformOptions = \<lparr> strategy = markdownLinkResolution opts, allSlugs = ctxAllSlugs \<rparr>
      in case tree of Root cs \<Rightarrow>
           (case visitAll E opts transformOptions slug curSlug cs [] of
              Inl e \<Rightarrow> Inl e
            | Inr (cs', outgoing) \<Rightarrow> Inr (Root cs', outgoing)))"

text \<open>
  The slugs that the internal hyperlinks of a list contribute to the outgoing set, in
  order: one for every hyperlink whose destination, after the substitution rules, neither
  parses as an absolute URL nor starts with \<^verbatim>\<open>#\<close>.
\<close>

definition internalSlugs ::
  "env \<Rightarrow> options \<Rightarrow> transformOptions \<Rightarrow> string \<Rightarrow> string \<Rightarrow>
   (string \<times> (string \<times> propval) list) list \<Rightarrow> string list" where
  "internalSlugs E opts topts slug curSlug links =
     concat (map (\<lambda>l. let d = dest (substitute (substitutions opts) (fst l))
                        in if isInternal E d then
                             (case resolveInternal E topts slug curSlug d of
                                Inl e \<Rightarrow> [] | Inr (d', full, simple) \<Rightarrow> [simple])
                           else []) links)"

text \<open>A call that returns, as opposed to one that throws.\<close>

definition returns :: "error + 'a \<Rightarrow> bool" where
  "returns r = (case r of Inl e \<Rightarrow> False | Inr x \<Rightarrow> True)"

text \<open>
  A hyperlink on which nothing throws: its \<^verbatim>\<open>className\<close> is missing or an array, and when
  its destination is internal, the path resolution returns on it, the URL constructor
  returns on the result, and the percent-decoding returns on the canonical path (cut at
  the anchor, with \<^verbatim>\<open>index\<close> after a trailing slash, the leading slash stripped).
\<close>

definition linkReturns ::
  "env \<Rightarrow> options \<Rightarrow> transformOptions \<Rightarrow> string \<Rightarrow> string \<Rightarrow>
   string \<times> (string \<times> propval) list \<Rightarrow> bool" where
  "linkReturns E opts topts slug curSlug l =
     (let d = dest (substitute (substitutions opts) (fst l))
      in (case getProp (snd l) ''className'' of
            None \<Rightarrow> True | Some (StrList cs) \<Rightarrow> True | Some v \<Rightarrow> False) \<and>
         (if isInternal E d then
            (case transformLink E slug d topts of
               Inl e \<Rightarrow> False
             | Inr d' \<Rightarrow>
               (case urlPathname E d' (''https://base.com/'' @ stripSlashes E curSlug True) of
                  Inl e \<Rightarrow> False
                | Inr p \<Rightarrow>
                    returns (decodeURIComponent (stripSlashes E
                      (if endsWith (fst (splitAnchor E p)) ''/''
                       then fst (splitAnchor E p) @ ''index'' else fst (splitAnchor E p))
                      True))))
          else True))"

text \<open>
  The source strings that the resource branch meets: those of the \<^verbatim>\<open>img\<close>, \<^verbatim>\<open>video\<close>,
  \<^verbatim>\<open>audio\<close> and \<^verbatim>\<open>iframe\<close> elements of the tree, and those of the icons that the link
  branch appends, which the traversal visits in their turn. The branch returns on a
  source that parses as an absolute URL, and on any other when the path resolution does.
\<close>

fun resourceSrcs :: "node \<Rightarrow> string list" where
  "resourceSrcs (Element t ps cs) =
     (if t \<in> set [''img'', ''video'', ''audio'', ''iframe'']
      then (case getProp ps ''src'' of Some (Str s) \<Rightarrow> [s] | _ \<Rightarrow> []) else [])
     @ concat (map resourceSrcs cs)"
| "resourceSrcs (Text _) = []"
| "resourceSrcs (Comment _) = []"

definition resourceSrcsAll :: "node list \<Rightarrow> string list" where
  "resourceSrcsAll ns = concat (map resourceSrcs ns)"

definition iconNodes :: "env \<Rightarrow> options \<Rightarrow> string \<Rightarrow> node list" where
  "iconNodes E opts href =
     (let st = substitute (substitutions opts) href
      in withIcon opts (canParse E (dest st)) st [])"

definition iconSrcs ::
  "env \<Rightarrow> options \<Rightarrow> (string \<times> (string \<times> propval) list) list \<Rightarrow> string list" where
  "iconSrcs E opts links = concat (map (\<lambda>l. resourceSrcsAll (iconNodes E opts (fst l))) links)"

definition handed :: "env \<Rightarrow> options \<Rightarrow> node list \<Rightarrow> string list" where
  "handed E opts ns = resourceSrcsAll ns @ iconSrcs E opts (hyperlinksAll ns)"

definition resourceReturns :: "env \<Rightarrow> transformOptions \<Rightarrow> string \<Rightarrow> string \<Rightarrow> bool" where
  "resourceReturns E topts slug s = (canParse E s \<or> returns (transformLink E slug s topts))"

subsection \<open>A concrete environment\<close>

text \<open>
  The theorems below hold for every environment. To run the visitor on concrete pages,
  the imported functions are given definitions here. They cover relative path references
  that need no slugging; nothing proved for all environments depends on them.
\<close>

text \<open>
  Modelled from the spec: \<^verbatim>\<open>URL.canParse\<close>, the predicate "is this destination an absolute
  URL". A string is taken to parse when it begins with a scheme (a letter, then letters,
  digits, \<^verbatim>\<open>+\<close>, \<^verbatim>\<open>-\<close> or \<^verbatim>\<open>.\<close>, then a colon) with something after it; without a scheme the
  platform's parser fails for want of a base.
\<close>

definition isAlpha :: "char \<Rightarrow> bool" where
  "isAlpha c = (let n = (of_char c :: nat) in (65 \<le> n \<and> n \<le> 90) \<or> (97 \<le> n \<and> n \<le> 122))"

definition isSchemeChar :: "char \<Rightarrow> bool" where
  "isSchemeChar c = (let n = (of_char c :: nat) in
     isAlpha c \<or> (48 \<le> n \<and> n \<le> 57) \<or> c = CHR ''+'' \<or> c = CHR ''-'' \<or> c = CHR ''.'')"

definition hasScheme :: "string \<Rightarrow> bool" where
  "hasScheme s = (case s of
       [] \<Rightarrow> False
     | c # r \<Rightarrow> isAlpha c \<and>
         (case dropWhile isSchemeChar r of [] \<Rightarrow> False | k # t \<Rightarrow> k = CHR '':'' \<and> t \<noteq> []))"

text \<open>
  Modelled from the spec: \<^verbatim>\<open>stripSlashes\<close> of \<^verbatim>\<open>util/path\<close>, "strip leading/trailing
  separators": one leading slash, and one trailing slash unless only the prefix is to be
  stripped.
\<close>

definition stripSlashesPath :: "string \<Rightarrow> bool \<Rightarrow> string" where
  "stripSlashesPath s onlyStripPrefix =
     (let s = (if startsWith s ''/'' then drop 1 s else s)
      in if \<not> onlyStripPrefix \<and> endsWith s ''/'' then butlast s else s)"

text \<open>
  Modelled from the spec: \<^verbatim>\<open>splitAnchor\<close> of \<^verbatim>\<open>util/path\<close>, which parts a link at its first
  fragment marker. The anchor is left as it stands.
\<close>

definition splitAnchorPath :: "string \<Rightarrow> string \<times> string" where
  "splitAnchorPath link =
     (takeWhile (\<lambda>c. c \<noteq> CHR ''#'') link, dropWhile (\<lambda>c. c \<noteq> CHR ''#'') link)"

text \<open>
  Modelled from the spec: \<^verbatim>\<open>simplifySlug\<close> of \<^verbatim>\<open>util/path\<close>, the "canonical form used as the
  outgoing-set key": a final \<^verbatim>\<open>index\<close> segment and a leading slash are dropped, and the
  empty result is written \<^verbatim>\<open>/\<close>.
\<close>

definition simplifySlugPath :: "string \<Rightarrow> string" where
  "simplifySlugPath fp =
     (let s = (if fp = ''index'' \<or> endsWith fp ''/index''
               then take (length fp - 5) fp else fp);
          res = stripSlashesPath s True
      in if res = [] then ''/'' else res)"

text \<open>
  Modelled from the spec: \<^verbatim>\<open>transformLink\<close> of \<^verbatim>\<open>util/path\<close>, the path-resolution
  collaborator, for a destination that needs no slugging under the absolute strategy:
  the destination is put behind the path from the page to the site's root.
\<close>

fun splitSlash :: "string \<Rightarrow> string list" where
  "splitSlash [] = [[]]"
| "splitSlash (c # s) =
     (if c = CHR ''/'' then [] # splitSlash s
      else (case splitSlash s of [] \<Rightarrow> [[c]] | x # xs \<Rightarrow> (c # x) # xs))"

fun joinSlash :: "string list \<Rightarrow> string" where
  "joinSlash [] = []"
| "joinSlash [x] = x"
| "joinSlash (x # y # ys) = x @ ''/'' @ joinSlash (y # ys)"

definition pathToRoot :: "string \<Rightarrow> string" where
  "pathToRoot slug =
     (let n = length (filter (\<lambda>x. x \<noteq> []) (splitSlash slug)) - 1
      in if n = 0 then ''.'' else joinSlash (replicate n ''..''))"

definition transformLinkPath :: "string \<Rightarrow> string \<Rightarrow> transformOptions \<Rightarrow> error + string" where
  "transformLinkPath src target topts = Inr (pathToRoot src @ ''/'' @ target)"

text \<open>
  Modelled from the spec: \<^verbatim>\<open>new URL(dest, base).pathname\<close>, the "canonical absolute form"
  of a relative path reference: the reference, cut at its query or fragment, replaces
  the last segment of the base's path, and dot segments are resolved. The parser
  percent-encodes what lies outside the printable ASCII range and the characters of its
  path percent-encode set, and leaves a \<^verbatim>\<open>%\<close> of the reference as it is.
\<close>

fun dotSegments :: "string list \<Rightarrow> string list \<Rightarrow> string list" where
  "dotSegments acc [] = rev acc"
| "dotSegments acc (s # ss) =
     (if s = ''..'' then dotSegments (if ss = [] then [] # tl acc else tl acc) ss
      else if s = ''.'' then dotSegments (if ss = [] then [] # acc else acc) ss
      else dotSegments (s # acc) ss)"

definition hexChar :: "nat \<Rightarrow> char" where
  "hexChar n = char_of (if n < 10 then 48 + n else 55 + n)"

definition pathEncode :: "char \<Rightarrow> string" where
  "pathEncode c = (let n = (of_char c :: nat) in
     if n < 33 \<or> 126 < n
        \<or> c \<in> set [CHR 0x22, CHR ''<'', CHR ''>'', CHR ''^'', CHR 0x60, CHR ''{'', CHR ''}'']
     then [CHR ''%'', hexChar (n div 16), hexChar (n mod 16)] else [c])"

definition urlPathnamePath :: "string \<Rightarrow> string \<Rightarrow> error + string" where
  "urlPathnamePath d base =
     (let cut = takeWhile (\<lambda>c. c \<noteq> CHR ''?'' \<and> c \<noteq> CHR ''#'');
          basePath = splitSlash (drop 1 (cut (drop 16 base)));
          ref = splitSlash (cut d);
          segs = (if startsWith d ''/'' then tl ref else butlast basePath @ ref)
      in Inr (concat (map pathEncode (''/'' @ joinSlash (dotSegments [] segs)))))"

definition pathEnv :: env where
  "pathEnv = \<lparr> canParse = hasScheme, urlPathname = urlPathnamePath,
     transformLink = transformLinkPath, stripSlashes = stripSlashesPath,
     splitAnchor = splitAnchorPath, simplifySlug = simplifySlugPath \<rparr>"

text \<open>
  The rule \<^verbatim>\<open>/^mailto:(.+)$/\<close> and the rule \<^verbatim>\<open>/^(https:.+)$/\<close>, as their \<^verbatim>\<open>match\<close>. The dot
  takes any character but a line terminator (LF, CR, U+2028, U+2029).
\<close>

fun hasLineTerminator :: "string \<Rightarrow> bool" where
  "hasLineTerminator [] = False"
| "hasLineTerminator (c # s) =
     (c = CHR 0x0A \<or> c = CHR 0x0D
      \<or> (c = CHR 0xE2 \<and> (take 2 s = [CHR 0x80, CHR 0xA8] \<or> take 2 s = [CHR 0x80, CHR 0xA9]))
      \<or> hasLineTerminator s)"

definition noNewline :: "string \<Rightarrow> bool" where
  "noNewline s = (\<not> hasLineTerminator s)"

definition mailtoRe :: regexp where
  "mailtoRe s = (if startsWith s ''mailto:'' \<and> drop 7 s \<noteq> [] \<and> noNewline s
                 then Some [Some s, Some (drop 7 s)] else None)"

definition httpsRe :: regexp where
  "httpsRe s = (if startsWith s ''https:'' \<and> drop 6 s \<noteq> [] \<and> noNewline s
                then Some [Some s, Some s] else None)"

text \<open>The rule \<^verbatim>\<open>/^(notes\/)archive\/(.+)$/\<close>, with two captured groups.\<close>

definition archiveRe :: regexp where
  "archiveRe s = (if startsWith s ''notes/archive/'' \<and> drop 14 s \<noteq> [] \<and> noNewline s
                  then Some [Some s, Some ''notes/'', Some (drop 14 s)] else None)"

text \<open>Pages and options for running the visitor.\<close>

definition envelope :: string where
  "envelope = [CHR 0xE2, CHR 0x9C, CHR 0x89]"

definition mailOptions :: options where
  "mailOptions = defaultOptions\<lparr> substitutions := Some [(mailtoRe, Emoji (AString envelope))] \<rparr>"

definition pathOptions :: options where
  "pathOptions = defaultOptions\<lparr> substitutions :=
     Some [(httpsRe, Path (Untagged (PathD ''M0 0h1v1z'' ''0 0 1 1'')))] \<rparr>"

definition absoluteOptions :: transformOptions where
  "absoluteOptions = \<lparr> strategy = absolute, allSlugs = [] \<rparr>"

definition mailLink :: node where
  "mailLink = Element ''a'' [(''href'', Str ''mailto:a@b.com'')] [Text ''mail me'']"

definition siteLink :: node where
  "siteLink = Element ''a'' [(''href'', Str ''https://example.com/x'')] [Text ''Example'']"

definition noteLink :: node where
  "noteLink = Element ''a'' [(''href'', Str ''notes/foo'')] [Text ''notes/foo'']"

definition archiveOptions :: options where
  "archiveOptions = defaultOptions\<lparr> substitutions :=
     Some [(mailtoRe, Emoji (AString envelope)),
           (archiveRe, Image (AString ''icons/old.png''))] \<rparr>"

definition archiveLink :: node where
  "archiveLink = Element ''a'' [(''href'', Str ''notes/archive/foo'')] [Text ''old note'']"

definition cafe :: string where
  "cafe = [CHR ''c'', CHR ''a'', CHR ''f'', CHR 0xC3, CHR 0xA9]"

definition aliasLink :: node where
  "aliasLink = Element ''a'' [(''href'', Str ''notes/foo''), (''className'', StrList [''wiki''])]
     [Text ''Foo'']"

section \<open>Properties\<close>

subsection \<open>The rule loop and the visitor's branches\<close>

lemma every_skip:
  "\<forall>r\<in>set pre. fst r href = None \<Longrightarrow>
   every (subCallback href) (pre @ rest) st = every (subCallback href) rest st"
proof (induction pre arbitrary: st)
  case Nil
  then show ?case by simp
next
  case (Cons r pre)
  obtain regex sub where r: "r = (regex, sub)" by (cases r)
  with Cons.prems have "regex href = None" by simp
  with Cons r show ?case by (simp add: subCallback_None)
qed

lemma every_stop:
  "regex href = Some parts \<Longrightarrow>
   every (subCallback href) ((regex, sub) # post) st =
     \<lparr> dest = joinGroups parts, refIcon = iconFor sub (refIcon st), matched = True \<rparr>"
  by (simp add: subCallback_Some)

lemma every_unmatched:
  "\<not> matched (every (subCallback href) rules st) \<Longrightarrow>
   every (subCallback href) rules st = st \<and> (\<forall>r\<in>set rules. fst r href = None)"
proof (induction rules arbitrary: st)
  case Nil
  then show ?case by simp
next
  case (Cons r rules)
  obtain regex sub where r: "r = (regex, sub)" by (cases r)
  show ?case
  proof (cases "regex href")
    case None
    with Cons r show ?thesis by (simp add: subCallback_None)
  next
    case (Some parts)
    with Cons.prems r show ?thesis by (simp add: subCallback_Some)
  qed
qed

lemma every_matched:
  "matched (every (subCallback href) rules st) \<Longrightarrow> \<not> matched st \<Longrightarrow>
   \<exists>pre regex sub post parts. rules = pre @ (regex, sub) # post \<and>
      (\<forall>r\<in>set pre. fst r href = None) \<and> regex href = Some parts"
proof (induction rules arbitrary: st)
  case Nil
  then show ?case by simp
next
  case (Cons r rules)
  obtain regex sub where r: "r = (regex, sub)" by (cases r)
  show ?case
  proof (cases "regex href")
    case None
    with Cons.prems r have "matched (every (subCallback href) rules st)"
      by (simp add: subCallback_None)
    from Cons.IH [OF this Cons.prems(2)] obtain pre regex' sub' post parts where
      "rules = pre @ (regex', sub') # post" "\<forall>r\<in>set pre. fst r href = None"
      "regex' href = Some parts" by blast
    with None r have "r # rules = (r # pre) @ (regex', sub') # post \<and>
      (\<forall>r\<in>set (r # pre). fst r href = None) \<and> regex' href = Some parts" by simp
    then show ?thesis by blast
  next
    case (Some parts)
    with r have "r # rules = [] @ (regex, sub) # rules \<and>
      (\<forall>r\<in>set []. fst r href = None) \<and> regex href = Some parts" by simp
    then show ?thesis by blast
  qed
qed

lemma substitute_unmatched:
  "\<not> matched (substitute subs href) \<Longrightarrow>
   substitute subs href = \<lparr> dest = href, refIcon = None, matched = False \<rparr>"
  by (cases subs) (simp_all add: substitute_def every_unmatched)

lemma substitute_matched:
  "matched (substitute subs href) \<Longrightarrow>
   \<exists>pre regex sub post parts. subs = Some (pre @ (regex, sub) # post) \<and>
      (\<forall>r\<in>set pre. fst r href = None) \<and> regex href = Some parts"
proof (cases subs)
  case None
  assume "matched (substitute subs href)"
  with None show ?thesis by (simp add: substitute_def)
next
  case (Some rules)
  assume "matched (substitute subs href)"
  with Some have "matched (every (subCallback href) rules \<lparr> dest = href, refIcon = None, matched = False \<rparr>)"
    by (simp add: substitute_def)
  from every_matched [OF this] Some show ?thesis by simp
qed

lemma getProp_setProp: "getProp (setProp k v ps) k' = (if k' = k then Some v else getProp ps k')"
  by (simp add: getProp_def setProp_def update_conv')

lemma rewriteLink_tag:
  "rewriteLink E opts topts slug curSlug href ps cs out = Inr (n', out') \<Longrightarrow> tagName n' = ''a''"
  by (auto simp: rewriteLink_def split: sum.splits prod.splits)

lemma visitor_link:
  assumes "getProp ps ''href'' = Some (Str href)"
  shows "visitor E opts topts slug curSlug (Element ''a'' ps cs) out =
           rewriteLink E opts topts slug curSlug href ps cs out"
proof (cases "rewriteLink E opts topts slug curSlug href ps cs out")
  case (Inl e)
  with assms show ?thesis by (simp add: visitor_def)
next
  case (Inr r)
  obtain n' out' where r: "r = (n', out')" by (cases r)
  with Inr have "tagName n' = ''a''" by (simp add: rewriteLink_tag)
  with Inr r assms show ?thesis by (simp add: visitor_def)
qed

lemma matched_iff: "matched (substitute subs href) = ruleMatches subs href"
proof (cases "matched (substitute subs href)")
  case True
  from substitute_matched [OF this] obtain pre regex sub post parts where
    "subs = Some (pre @ (regex, sub) # post)" "regex href = Some parts" by blast
  then have "ruleMatches subs href" by (simp add: ruleMatches_def)
  with True show ?thesis by simp
next
  case False
  have "\<not> ruleMatches subs href"
  proof (cases subs)
    case None
    then show ?thesis by (simp add: ruleMatches_def)
  next
    case (Some rules)
    with False have "\<not> matched (every (subCallback href) rules \<lparr> dest = href, refIcon = None, matched = False \<rparr>)"
      by (simp add: substitute_def)
    from every_unmatched [OF this] Some show ?thesis
      by (simp add: ruleMatches_def list_ex_iff)
  qed
  with False show ?thesis by simp
qed

lemma classList_setProp_href [simp]: "classList (setProp ''href'' v ps) = classList ps"
  by (simp add: classList_def getProp_setProp)

text \<open>What the link branch returns, written out once.\<close>

lemma rewriteLink_Inr:
  assumes "rewriteLink E opts topts slug curSlug href ps cs out = Inr (n', out')"
  shows "\<exists>old. classList ps = Inr old \<and>
     (let st = substitute (substitutions opts) href;
          d = dest st;
          ext = canParse E d;
          cs1 = withIcon opts ext st cs;
          classes = withAlias d cs1 (old @ [if ext \<or> matched st then ''external'' else ''internal'']);
          ps1 = setProp ''className'' (StrList classes) (setProp ''href'' (Str d) ps);
          ps2 = (if ext \<and> openLinksInNewTab opts then setProp ''target'' (Str ''_blank'') ps1 else ps1)
      in if isInternal E d then
           (\<exists>d' full simple. resolveInternal E topts slug curSlug d = Inr (d', full, simple) \<and>
              n' = Element ''a'' (setProp ''data-slug'' (Str full) (setProp ''href'' (Str d') ps2))
                     (prettify opts True cs1) \<and>
              out' = addSlug simple out)
         else n' = Element ''a'' ps2 (prettify opts False cs1) \<and> out' = out)"
  using assms
  by (auto simp: rewriteLink_def linkCore_def Let_def split: sum.splits if_splits prod.splits)

lemma visitor_link_Inr:
  assumes "getProp ps ''href'' = Some (Str href)"
    and "visitor E opts topts slug curSlug (Element ''a'' ps cs) out = Inr (n', out')"
  shows "rewriteLink E opts topts slug curSlug href ps cs out = Inr (n', out')"
  using assms by (simp add: visitor_link)

lemma withIcon_prettyLinks:
  "withIcon (opts\<lparr>prettyLinks := b\<rparr>) e st cs = withIcon opts e st cs"
  by (simp add: withIcon_def)

lemma linkCore_prettyLinks:
  "linkCore E (opts\<lparr>prettyLinks := b\<rparr>) topts slug curSlug href ps cs out =
   linkCore E opts topts slug curSlug href ps cs out"
  by (simp add: linkCore_def withIcon_prettyLinks Let_def cong: sum.case_cong)

lemma prettify_off: "prettify (opts\<lparr>prettyLinks := False\<rparr>) b cs = cs"
  by (simp add: prettify_def split: list.splits node.splits)

subsection \<open>The traversal's effect on the outgoing set\<close>

lemma internalSlugs_simps:
  "internalSlugs E opts topts slug curSlug [] = []"
  "internalSlugs E opts topts slug curSlug (xs @ ys) =
     internalSlugs E opts topts slug curSlug xs @ internalSlugs E opts topts slug curSlug ys"
  by (simp_all add: internalSlugs_def)

lemma defaultIcon_links: "hyperlinks defaultIcon = []"
  by (simp add: defaultIcon_def)

lemma withIcon_links: "hyperlinksAll (withIcon opts e (substitute subs href) cs) = hyperlinksAll cs"
  using substitute_small [of subs href]
  by (auto simp: withIcon_def smallIcon_def defaultIcon_links split: option.splits)

lemma prettify_links: "hyperlinksAll (prettify opts b cs) = hyperlinksAll cs"
  by (auto simp: prettify_def split: list.splits node.splits)

lemma rewriteLink_effect:
  assumes "rewriteLink E opts topts slug curSlug href ps cs out = Inr (n', out')"
  shows "\<exists>ps' cs'. n' = Element ''a'' ps' cs' \<and> hyperlinksAll cs' = hyperlinksAll cs \<and>
     out' = fold addSlug (internalSlugs E opts topts slug curSlug [(href, ps)]) out"
  using rewriteLink_Inr [OF assms]
  by (auto simp: Let_def internalSlugs_def withIcon_links prettify_links split: if_splits)

lemma visitor_effect:
  assumes "visitor E opts topts slug curSlug (Element t ps cs) out = Inr (n', out')"
  shows "\<exists>ps' cs'. n' = Element t ps' cs' \<and> hyperlinksAll cs' = hyperlinksAll cs \<and>
     out' = fold addSlug (internalSlugs E opts topts slug curSlug (hyperlinks (Element t ps []))) out"
proof (cases "t = ''a'' \<and> (\<exists>href. getProp ps ''href'' = Some (Str href))")
  case True
  then obtain href where h: "t = ''a''" "getProp ps ''href'' = Some (Str href)" by blast
  with assms have "rewriteLink E opts topts slug curSlug href ps cs out = Inr (n', out')"
    by (simp add: visitor_link)
  from rewriteLink_effect [OF this] h show ?thesis by simp
next
  case False
  then have own: "hyperlinks (Element t ps []) = []"
    by (auto split: option.splits propval.splits)
  from False have first: "(if t = ''a'' then
                   (case getProp ps ''href'' of
                      Some (Str href) \<Rightarrow> rewriteLink E opts topts slug curSlug href ps cs out
                    | _ \<Rightarrow> Inr (Element t ps cs, out))
                 else Inr (Element t ps cs, out)) = Inr (Element t ps cs, out)"
    by (auto split: option.splits propval.splits)
  from assms show ?thesis
    unfolding visitor_def node.case first own
    by (auto simp: internalSlugs_simps rewriteResource_def Let_def
             split: if_splits option.splits propval.splits sum.splits)
qed

lemma visit_outgoing:
  "visit E opts topts slug curSlug n out = Inr (n', out') \<Longrightarrow>
     out' = fold addSlug (internalSlugs E opts topts slug curSlug (hyperlinks n)) out"
  "visitAll E opts topts slug curSlug ns out = Inr (ns', out'') \<Longrightarrow>
     out'' = fold addSlug (internalSlugs E opts topts slug curSlug (hyperlinksAll ns)) out"
proof (induction E opts topts slug curSlug n out and E opts topts slug curSlug ns out
       arbitrary: n' out' and ns' out'' rule: visit_visitAll.induct)
  case (1 E opts topts slug curSlug n out)
  show ?case
  proof (cases n)
    case (Element t ps cs)
    from "1.prems" obtain n1 out1 where v: "visitor E opts topts slug curSlug n out = Inr (n1, out1)"
      by (auto split: sum.splits)
    from visitor_effect [OF v [unfolded Element]] obtain ps' cs' where
      n1: "n1 = Element t ps' cs'" and links: "hyperlinksAll cs' = hyperlinksAll cs" and
      out1: "out1 = fold addSlug (internalSlugs E opts topts slug curSlug (hyperlinks (Element t ps []))) out"
      by blast
    from "1.prems" v n1 obtain cs'' where
      rest: "visitAll E opts topts slug curSlug cs' out1 = Inr (cs'', out')"
      by (auto split: sum.splits)
    from "1.IH" [OF v refl n1 rest] links out1 Element show ?thesis
      by (simp add: internalSlugs_simps hyperlinksAll_def)
  next
    case (Text v)
    with "1.prems" show ?thesis by (auto simp: visitor_def internalSlugs_simps)
  next
    case (Comment c)
    with "1.prems" show ?thesis by (auto simp: visitor_def internalSlugs_simps)
  qed
next
  case (2 E opts topts slug curSlug out)
  then show ?case by (simp add: internalSlugs_simps)
next
  case (3 E opts topts slug curSlug n ns out)
  from "3.prems" obtain n1 out1 where v: "visit E opts topts slug curSlug n out = Inr (n1, out1)"
    by (auto split: sum.splits)
  with "3.prems" obtain ns1 where
    rest: "visitAll E opts topts slug curSlug ns out1 = Inr (ns1, out'')"
    by (auto split: sum.splits)
  from "3.IH"(1) [OF v] "3.IH"(2) [OF v refl rest] show ?case
    by (simp add: internalSlugs_simps)
qed

lemma fold_addSlug_set: "set (fold addSlug ss out) = set ss \<union> set out"
  by (induction ss arbitrary: out) (auto simp: addSlug_def)

lemma fold_addSlug_distinct: "distinct out \<Longrightarrow> distinct (fold addSlug ss out)"
  by (induction ss arbitrary: out) (auto simp: addSlug_def)

subsection \<open>Further facts about the rules and the resolution\<close>

lemma substitute_first:
  assumes "\<forall>r\<in>set pre. fst r href = None" and "regex href = Some parts"
  shows "substitute (Some (pre @ (regex, sub) # post)) href =
           \<lparr> dest = joinGroups parts, refIcon = iconFor sub None, matched = True \<rparr>"
  using assms by (simp add: substitute_def every_skip subCallback_Some)

lemma resolveInternal_href:
  "resolveInternal E topts slug curSlug d = Inr (d', full, simple) \<Longrightarrow>
   transformLink E slug d topts = Inr d' \<and> normalizeDest E curSlug d' = Inr (full, simple) \<and>
   simple = simplifySlug E full"
  by (auto simp: resolveInternal_def normalizeDest_def Let_def
           split: sum.splits prod.splits if_splits)

lemma internalSlugs_member:
  assumes "s \<in> set (internalSlugs E opts topts slug curSlug links)"
  shows "\<exists>l\<in>set links.
     isInternal E (dest (substitute (substitutions opts) (fst l))) \<and>
     (\<exists>d' full. resolveInternal E topts slug curSlug
        (dest (substitute (substitutions opts) (fst l))) = Inr (d', full, s))"
proof -
  let ?d = "\<lambda>l. dest (substitute (substitutions opts) (fst l))"
  from assms have "\<exists>l\<in>set links. s \<in> set (if isInternal E (?d l) then
                 (case resolveInternal E topts slug curSlug (?d l) of
                    Inl e \<Rightarrow> [] | Inr (d', full, simple) \<Rightarrow> [simple])
               else [])"
    unfolding internalSlugs_def Let_def set_concat set_map by blast
  then obtain l where l: "l \<in> set links"
    and here: "s \<in> set (if isInternal E (?d l) then
                 (case resolveInternal E topts slug curSlug (?d l) of
                    Inl e \<Rightarrow> [] | Inr (d', full, simple) \<Rightarrow> [simple])
               else [])"
    by blast
  have int: "isInternal E (?d l)"
  proof (rule ccontr)
    assume "\<not> isInternal E (?d l)"
    with here have "s \<in> set []" by (simp only: if_False)
    then show False by simp
  qed
  with here have there: "s \<in> set (case resolveInternal E topts slug curSlug (?d l) of
                    Inl e \<Rightarrow> [] | Inr (d', full, simple) \<Rightarrow> [simple])"
    by (simp only: if_True)
  have "\<exists>d' full. resolveInternal E topts slug curSlug (?d l) = Inr (d', full, s)"
  proof (cases "resolveInternal E topts slug curSlug (?d l)")
    case (Inl e)
    with there have "s \<in> set []" by (simp only: sum.case)
    then show ?thesis by simp
  next
    case (Inr r)
    obtain d' full simple where r: "r = (d', full, simple)" by (cases r)
    with Inr there have "s \<in> set [simple]" by (simp only: sum.case prod.case)
    with Inr r show ?thesis by simp
  qed
  with int l show ?thesis by blast
qed


lemma rewriteLink_children:
  assumes "rewriteLink E opts topts slug curSlug href ps cs out = Inr (n', out')"
  shows "children n' =
     prettify opts (isInternal E (dest (substitute (substitutions opts) href)))
       (withIcon opts (canParse E (dest (substitute (substitutions opts) href)))
          (substitute (substitutions opts) href) cs)"
  using rewriteLink_Inr [OF assms]
  by (cases "isInternal E (dest (substitute (substitutions opts) href))")
     (auto simp: Let_def)

text \<open>The icon step: when an icon is appended, and which.\<close>

lemma icon_step:
  assumes "rewriteLink E opts topts slug curSlug href ps cs out = Inr (n', out')"
  shows "children n' =
     prettify opts (isInternal E (dest (substitute (substitutions opts) href)))
       (if (canParse E (dest (substitute (substitutions opts) href)) \<and> externalLinkIcon opts)
           \<or> ruleMatches (substitutions opts) href
        then cs @ [case refIcon (substitute (substitutions opts) href) of
                     Some icon \<Rightarrow> icon | None \<Rightarrow> defaultIcon]
        else cs)"
  using rewriteLink_children [OF assms] by (simp add: withIcon_def matched_iff)

text \<open>
  Below a hyperlink the traversal goes on with the children the visitor has left; the
  properties the visitor has written are the final ones.
\<close>

lemma visit_link:
  assumes "getProp ps ''href'' = Some (Str href)"
    and "visit E opts topts slug curSlug (Element ''a'' ps cs) out = Inr (n'', out'')"
  shows "\<exists>n' out' cs''.
     visitor E opts topts slug curSlug (Element ''a'' ps cs) out = Inr (n', out') \<and>
     visitAll E opts topts slug curSlug (children n') out' = Inr (cs'', out'') \<and>
     n'' = Element ''a'' (properties n') cs''"
proof -
  from assms(2) obtain n' out' where
    v: "visitor E opts topts slug curSlug (Element ''a'' ps cs) out = Inr (n', out')"
    by (auto split: sum.splits)
  from visitor_effect [OF v] obtain ps' cs' where n': "n' = Element ''a'' ps' cs'" by blast
  with assms(2) v obtain cs'' where
    "visitAll E opts topts slug curSlug cs' out' = Inr (cs'', out'')"
    and "n'' = Element ''a'' ps' cs''"
    by (auto split: sum.splits)
  with v n' show ?thesis by simp
qed

subsection \<open>When the traversal returns\<close>

text \<open>
  Each branch of the visitor, and with it the traversal, returns exactly when the calls
  it makes return.
\<close>

lemma resourceSrcsAll_simps [simp]:
  "resourceSrcsAll [] = []" "resourceSrcsAll (n # ns) = resourceSrcs n @ resourceSrcsAll ns"
  "resourceSrcsAll (xs @ ys) = resourceSrcsAll xs @ resourceSrcsAll ys"
  by (simp_all add: resourceSrcsAll_def)

lemma iconSrcs_simps [simp]:
  "iconSrcs E opts [] = []"
  "iconSrcs E opts (l # ls) = resourceSrcsAll (iconNodes E opts (fst l)) @ iconSrcs E opts ls"
  "iconSrcs E opts (xs @ ys) = iconSrcs E opts xs @ iconSrcs E opts ys"
  by (simp_all add: iconSrcs_def)

lemma returns_simps [simp]: "returns (Inl e) = False" "returns (Inr x) = True"
  by (simp_all add: returns_def)

lemma returns_iff: "returns r = (\<exists>x. r = Inr x)"
  by (cases r) simp_all

lemma normalizeDest_returns:
  "returns (normalizeDest E curSlug d') =
     (case urlPathname E d' (''https://base.com/'' @ stripSlashes E curSlug True) of
        Inl e \<Rightarrow> False
      | Inr p \<Rightarrow>
          returns (decodeURIComponent (stripSlashes E
            (if endsWith (fst (splitAnchor E p)) ''/''
             then fst (splitAnchor E p) @ ''index'' else fst (splitAnchor E p))
            True)))"
  by (simp add: normalizeDest_def Let_def split: sum.splits)

lemma resolveInternal_returns:
  "returns (resolveInternal E topts slug curSlug d) =
     (case transformLink E slug d topts of
        Inl e \<Rightarrow> False
      | Inr d' \<Rightarrow> returns (normalizeDest E curSlug d'))"
  by (simp add: resolveInternal_def split: sum.splits prod.splits)

lemma classList_returns:
  "returns (classList ps) =
     (case getProp ps ''className'' of
        None \<Rightarrow> True | Some (StrList cs) \<Rightarrow> True | Some v \<Rightarrow> False)"
  by (simp add: classList_def split: option.splits propval.splits)

lemma linkCore_returns:
  "returns (linkCore E opts topts slug curSlug href ps cs out) =
     (returns (classList ps) \<and>
      (isInternal E (dest (substitute (substitutions opts) href)) \<longrightarrow>
       returns (resolveInternal E topts slug curSlug (dest (substitute (substitutions opts) href)))))"
  by (cases "classList ps")
     (simp_all add: linkCore_def Let_def split: sum.splits prod.splits)

lemma rewriteLink_returns_iff:
  "returns (rewriteLink E opts topts slug curSlug href ps cs out) =
     linkReturns E opts topts slug curSlug (href, ps)"
proof -
  have "returns (rewriteLink E opts topts slug curSlug href ps cs out) =
      returns (linkCore E opts topts slug curSlug href ps cs out)"
    by (simp add: rewriteLink_def split: sum.splits prod.splits)
  then show ?thesis
    by (simp add: linkCore_returns classList_returns resolveInternal_returns
          normalizeDest_returns linkReturns_def Let_def cong: sum.case_cong)
qed


lemma withIcon_append: "withIcon opts e st cs = cs @ withIcon opts e st []"
  by (simp add: withIcon_def)

lemma prettify_srcs: "resourceSrcsAll (prettify opts b cs) = resourceSrcsAll cs"
  by (auto simp: prettify_def split: list.splits node.splits)

lemma rewriteLink_srcs:
  assumes "rewriteLink E opts topts slug curSlug href ps cs out = Inr (n', out')"
  shows "resourceSrcsAll (children n') = resourceSrcsAll cs @ resourceSrcsAll (iconNodes E opts href)"
proof -
  have "resourceSrcsAll (children n') =
      resourceSrcsAll (withIcon opts (canParse E (dest (substitute (substitutions opts) href)))
          (substitute (substitutions opts) href) cs)"
    by (simp add: rewriteLink_children [OF assms] prettify_srcs)
  also have "\<dots> = resourceSrcsAll cs @ resourceSrcsAll (iconNodes E opts href)"
    using withIcon_append [of opts "canParse E (dest (substitute (substitutions opts) href))"
        "substitute (substitutions opts) href" cs]
    by (simp add: iconNodes_def Let_def)
  finally show ?thesis .
qed

lemma resource_branch_returns:
  "returns (if t \<in> set [''img'', ''video'', ''audio'', ''iframe''] then
                  (case getProp ps ''src'' of
                     Some (Str src) \<Rightarrow>
                       (case rewriteResource E opts topts slug t src ps cs of
                          Inl e \<Rightarrow> Inl e
                        | Inr n2 \<Rightarrow> Inr (n2, out1))
                   | _ \<Rightarrow> Inr (Element t ps cs, out1))
                else Inr (Element t ps cs, out1)) =
   (\<forall>s\<in>set (resourceSrcs (Element t ps [])). resourceReturns E topts slug s)"
proof (cases "t \<in> set [''img'', ''video'', ''audio'', ''iframe'']")
  case False
  then show ?thesis by simp
next
  case True
  show ?thesis
  proof (cases "getProp ps ''src''")
    case None
    with True show ?thesis by simp
  next
    case (Some v)
    with True show ?thesis
      by (cases v; cases "transformLink E slug (case v of Str s \<Rightarrow> s | _ \<Rightarrow> []) topts")
         (simp_all add: rewriteResource_def resourceReturns_def Let_def)
  qed
qed

text \<open>The visitor on one element: when it returns, and the sources among the children it leaves.\<close>

lemma visitor_returns_iff:
  "returns (visitor E opts topts slug curSlug (Element t ps cs) out) =
     ((\<forall>l\<in>set (hyperlinks (Element t ps [])). linkReturns E opts topts slug curSlug l) \<and>
      (\<forall>s\<in>set (resourceSrcs (Element t ps [])). resourceReturns E topts slug s))"
proof (cases "t = ''a'' \<and> (\<exists>href. getProp ps ''href'' = Some (Str href))")
  case True
  then obtain href where h: "t = ''a''" "getProp ps ''href'' = Some (Str href)" by blast
  then show ?thesis
    by (simp add: visitor_link rewriteLink_returns_iff)
next
  case False
  then have own: "hyperlinks (Element t ps []) = []"
    by (auto split: option.splits propval.splits)
  from False have first: "(if t = ''a'' then
                   (case getProp ps ''href'' of
                      Some (Str href) \<Rightarrow> rewriteLink E opts topts slug curSlug href ps cs out
                    | _ \<Rightarrow> Inr (Element t ps cs, out))
                 else Inr (Element t ps cs, out)) = Inr (Element t ps cs, out)"
    by (auto split: option.splits propval.splits)
  have "visitor E opts topts slug curSlug (Element t ps cs) out =
      (if t \<in> set [''img'', ''video'', ''audio'', ''iframe''] then
                  (case getProp ps ''src'' of
                     Some (Str src) \<Rightarrow>
                       (case rewriteResource E opts topts slug t src ps cs of
                          Inl e \<Rightarrow> Inl e
                        | Inr n2 \<Rightarrow> Inr (n2, out))
                   | _ \<Rightarrow> Inr (Element t ps cs, out))
                else Inr (Element t ps cs, out))"
    unfolding visitor_def node.case first by (simp only: sum.case prod.case node.sel)
  then have "returns (visitor E opts topts slug curSlug (Element t ps cs) out) =
      (\<forall>s\<in>set (resourceSrcs (Element t ps [])). resourceReturns E topts slug s)"
    by (simp only: resource_branch_returns)
  then show ?thesis
    unfolding own by (simp only: list.set ball_empty simp_thms)
qed

lemma visitor_srcs:
  assumes "visitor E opts topts slug curSlug (Element t ps cs) out = Inr (n', out')"
  shows "resourceSrcsAll (children n') =
     resourceSrcsAll cs
     @ iconSrcs E opts (hyperlinks (Element t ps []))"
proof (cases "t = ''a'' \<and> (\<exists>href. getProp ps ''href'' = Some (Str href))")
  case True
  then obtain href where h: "t = ''a''" "getProp ps ''href'' = Some (Str href)" by blast
  with assms have "rewriteLink E opts topts slug curSlug href ps cs out = Inr (n', out')"
    by (simp add: visitor_link)
  from rewriteLink_srcs [OF this] h show ?thesis by simp
next
  case False
  then have own: "hyperlinks (Element t ps []) = []"
    by (auto split: option.splits propval.splits)
  from False have first: "(if t = ''a'' then
                   (case getProp ps ''href'' of
                      Some (Str href) \<Rightarrow> rewriteLink E opts topts slug curSlug href ps cs out
                    | _ \<Rightarrow> Inr (Element t ps cs, out))
                 else Inr (Element t ps cs, out)) = Inr (Element t ps cs, out)"
    by (auto split: option.splits propval.splits)
  from assms show ?thesis
    unfolding visitor_def node.case first own
    by (auto simp: rewriteResource_def Let_def
             split: if_splits option.splits propval.splits sum.splits)
qed

lemma resourceSrcs_Element:
  "resourceSrcs (Element t ps cs) = resourceSrcs (Element t ps []) @ resourceSrcsAll cs"
  by (simp add: resourceSrcsAll_def)

lemma hyperlinks_Element:
  "hyperlinks (Element t ps cs) = hyperlinks (Element t ps []) @ hyperlinksAll cs"
  by (simp add: hyperlinksAll_def)

lemma handed_iconSrcs: "handed E opts ns = resourceSrcsAll ns @ iconSrcs E opts (hyperlinksAll ns)"
  by (simp add: handed_def)

lemma handed_Cons:
  "set (handed E opts (n # ns)) = set (handed E opts [n]) \<union> set (handed E opts ns)"
  unfolding handed_iconSrcs by (simp only: resourceSrcsAll_simps hyperlinksAll_simps
      iconSrcs_simps set_append append_Nil2) blast

lemma handed_Element:
  "set (handed E opts [Element t ps cs]) =
     set (resourceSrcs (Element t ps []))
     \<union> set (iconSrcs E opts (hyperlinks (Element t ps [])))
     \<union> set (handed E opts cs)"
  unfolding handed_iconSrcs
  by (simp only: resourceSrcsAll_simps hyperlinksAll_simps iconSrcs_simps set_append
        append_Nil2 resourceSrcs_Element [of t ps cs] hyperlinks_Element [of t ps cs]) blast

lemma visit_returns_iff:
  "returns (visit E opts topts slug curSlug n out) =
     ((\<forall>l\<in>set (hyperlinks n). linkReturns E opts topts slug curSlug l) \<and>
      (\<forall>s\<in>set (handed E opts [n]). resourceReturns E topts slug s))"
  "returns (visitAll E opts topts slug curSlug ns out) =
     ((\<forall>l\<in>set (hyperlinksAll ns). linkReturns E opts topts slug curSlug l) \<and>
      (\<forall>s\<in>set (handed E opts ns). resourceReturns E topts slug s))"
proof (induction E opts topts slug curSlug n out and E opts topts slug curSlug ns out
       rule: visit_visitAll.induct)
  case (1 E opts topts slug curSlug n out)
  show ?case
  proof (cases n)
    case (Element t ps cs)
    let ?own = "hyperlinks (Element t ps [])"
    let ?L = "\<lambda>ls. \<forall>l\<in>set ls. linkReturns E opts topts slug curSlug l"
    let ?R = "\<lambda>ss. \<forall>s\<in>set ss. resourceReturns E topts slug s"
    have links: "?L (hyperlinks n) = (?L ?own \<and> ?L (hyperlinksAll cs))"
      unfolding Element hyperlinks_Element [of t ps cs] by (simp only: set_append ball_Un)
    have srcs: "?R (handed E opts [n]) =
        (?R (resourceSrcs (Element t ps [])) \<and> ?R (iconSrcs E opts ?own) \<and> ?R (handed E opts cs))"
      unfolding Element handed_Element by (simp only: ball_Un conj_assoc)
    have here: "returns (visitor E opts topts slug curSlug n out) =
        (?L ?own \<and> ?R (resourceSrcs (Element t ps [])))"
      unfolding Element by (rule visitor_returns_iff)
    show ?thesis
    proof (cases "visitor E opts topts slug curSlug n out")
      case (Inl e)
      then have "\<not> returns (visit E opts topts slug curSlug n out)" by simp
      moreover from here have "\<not> (?L ?own \<and> ?R (resourceSrcs (Element t ps [])))"
        unfolding Inl by (simp only: returns_simps simp_thms)
      ultimately show ?thesis unfolding links srcs by blast
    next
      case (Inr r)
      obtain n1 out1 where r: "r = (n1, out1)" by (cases r)
      from Inr r have v: "visitor E opts topts slug curSlug n out = Inr (n1, out1)" by simp
      from visitor_effect [OF v [unfolded Element]] obtain ps' cs' where
        n1: "n1 = Element t ps' cs'" and same: "hyperlinksAll cs' = hyperlinksAll cs"
        by blast
      from visitor_srcs [OF v [unfolded Element]] n1 have
        more: "resourceSrcsAll cs' = resourceSrcsAll cs @ iconSrcs E opts ?own" by simp
      have below: "?R (handed E opts cs') = (?R (iconSrcs E opts ?own) \<and> ?R (handed E opts cs))"
        unfolding handed_iconSrcs same more by (simp only: set_append ball_Un) blast
      from here have own: "?L ?own \<and> ?R (resourceSrcs (Element t ps []))"
        unfolding v by (simp only: returns_simps simp_thms)
      have "returns (visit E opts topts slug curSlug n out) =
          returns (visitAll E opts topts slug curSlug cs' out1)"
        using v n1 by (simp split: sum.splits prod.splits)
      also have "\<dots> = (?L (hyperlinksAll cs') \<and> ?R (handed E opts cs'))"
        by (rule "1.IH" [OF v refl n1])
      finally show ?thesis unfolding links srcs below same using own by blast
    qed
  next
    case (Text v)
    then show ?thesis by (simp add: visitor_def handed_def iconSrcs_def)
  next
    case (Comment c)
    then show ?thesis by (simp add: visitor_def handed_def iconSrcs_def)
  qed
next
  case (2 E opts topts slug curSlug out)
  then show ?case by (simp add: handed_def)
next
  case (3 E opts topts slug curSlug n ns out)
  let ?L = "\<lambda>ls. \<forall>l\<in>set ls. linkReturns E opts topts slug curSlug l"
  let ?R = "\<lambda>ss. \<forall>s\<in>set ss. resourceReturns E topts slug s"
  have links: "?L (hyperlinksAll (n # ns)) = (?L (hyperlinks n) \<and> ?L (hyperlinksAll ns))"
    by (simp only: hyperlinksAll_simps set_append ball_Un)
  have srcs: "?R (handed E opts (n # ns)) = (?R (handed E opts [n]) \<and> ?R (handed E opts ns))"
    unfolding handed_Cons [of E opts n ns] by (simp only: ball_Un)
  show ?case
  proof (cases "visit E opts topts slug curSlug n out")
    case (Inl e)
    then have "\<not> returns (visitAll E opts topts slug curSlug (n # ns) out)" by simp
    moreover from "3.IH"(1) have
      "\<not> (?L (hyperlinks n) \<and> ?R (handed E opts [n]))"
      unfolding Inl by (simp only: returns_simps simp_thms)
    ultimately show ?thesis unfolding links srcs by blast
  next
    case (Inr r)
    obtain n1 out1 where r: "r = (n1, out1)" by (cases r)
    from Inr r have v: "visit E opts topts slug curSlug n out = Inr (n1, out1)" by simp
    from "3.IH"(1) have first: "?L (hyperlinks n) \<and> ?R (handed E opts [n])"
      unfolding v by (simp only: returns_simps simp_thms)
    have "returns (visitAll E opts topts slug curSlug (n # ns) out) =
        returns (visitAll E opts topts slug curSlug ns out1)"
      using v by (simp split: sum.splits prod.splits)
    also have "\<dots> = (?L (hyperlinksAll ns) \<and> ?R (handed E opts ns))"
      by (rule "3.IH"(2) [OF v refl])
    finally show ?thesis unfolding links srcs using first by blast
  qed
qed

lemma visitor_link_returns:
  assumes "getProp ps ''href'' = Some (Str href)"
    and "linkReturns E opts topts slug curSlug (href, ps)"
  shows "\<exists>n' out'. visitor E opts topts slug curSlug (Element ''a'' ps cs) out = Inr (n', out')"
proof -
  from assms(2) have "returns (rewriteLink E opts topts slug curSlug href ps cs out)"
    by (simp only: rewriteLink_returns_iff)
  then obtain r where "rewriteLink E opts topts slug curSlug href ps cs out = Inr r"
    by (auto simp: returns_iff)
  with assms(1) show ?thesis by (cases r) (simp add: visitor_link)
qed

lemma resolveInternal_steps:
  assumes "resolveInternal E topts slug curSlug d = Inr (d', full, simple)"
  shows "\<exists>p. transformLink E slug d topts = Inr d' \<and>
     urlPathname E d' (''https://base.com/'' @ stripSlashes E curSlug True) = Inr p \<and>
     decodeURIComponent (stripSlashes E
        (if endsWith (fst (splitAnchor E p)) ''/''
         then fst (splitAnchor E p) @ ''index'' else fst (splitAnchor E p)) True) = Inr full \<and>
     simple = simplifySlug E full"
proof -
  from assms have t: "transformLink E slug d topts = Inr d'"
    and n: "normalizeDest E curSlug d' = Inr (full, simple)"
    by (simp_all add: resolveInternal_href)
  from n obtain p where p: "urlPathname E d' (''https://base.com/'' @ stripSlashes E curSlug True) = Inr p"
    by (cases "urlPathname E d' (''https://base.com/'' @ stripSlashes E curSlug True)")
       (simp_all add: normalizeDest_def)
  with n have "decodeURIComponent (stripSlashes E
        (if endsWith (fst (splitAnchor E p)) ''/''
         then fst (splitAnchor E p) @ ''index'' else fst (splitAnchor E p)) True) = Inr full \<and>
     simple = simplifySlug E full"
    by (cases "decodeURIComponent (stripSlashes E
        (if endsWith (fst (splitAnchor E p)) ''/''
         then fst (splitAnchor E p) @ ''index'' else fst (splitAnchor E p)) True)")
       (simp_all add: normalizeDest_def Let_def)
  with t p show ?thesis by blast
qed

lemma visitor_link_total:
  assumes "getProp ps ''href'' = Some (Str href)"
    and "linkReturns E opts topts slug curSlug (href, ps)"
  shows "\<exists>n' out'. visitor E opts topts slug curSlug (Element ''a'' ps cs) out = Inr (n', out') \<and>
     rewriteLink E opts topts slug curSlug href ps cs out = Inr (n', out')"
  using visitor_link_returns [OF assms, of cs out] assms(1) by (auto simp: visitor_link)

section \<open>The claims\<close>

subsection \<open>C1: processing and exceptions\<close>

text \<open>
  C1, as amended. The visitor catches nothing, so \<^const>\<open>process\<close> returns a tree and a link
  list exactly when nothing it calls throws, that is, when both of these hold. Every
  hyperlink of the tree has a \<^verbatim>\<open>className\<close> that is missing or an array and, when its
  destination is internal, the path resolution returns on the destination, the URL
  constructor returns on the result and the percent-decoding returns on the canonical
  path. And the path resolution returns on every source string that the resource branch
  hands to it: the sources, not parsing as absolute URLs, of the resource elements of the
  tree and of the image icons appended to its hyperlinks.
\<close>

theorem process_returns_iff:
  "(\<exists>tree' links. process E opts ctxAllSlugs (Root cs) slug = Inr (tree', links)) =
     ((\<forall>l\<in>set (hyperlinksAll cs).
         linkReturns E opts \<lparr> strategy = markdownLinkResolution opts, allSlugs = ctxAllSlugs \<rparr>
           slug (simplifySlug E slug) l) \<and>
      (\<forall>s\<in>set (handed E opts cs).
         resourceReturns E \<lparr> strategy = markdownLinkResolution opts, allSlugs = ctxAllSlugs \<rparr>
           slug s))"
proof -
  let ?topts = "\<lparr> strategy = markdownLinkResolution opts, allSlugs = ctxAllSlugs \<rparr>"
  have "(\<exists>tree' links. process E opts ctxAllSlugs (Root cs) slug = Inr (tree', links)) =
      returns (visitAll E opts ?topts slug (simplifySlug E slug) cs [])"
    by (cases "visitAll E opts ?topts slug (simplifySlug E slug) cs []")
       (auto simp: process_def Let_def)
  then show ?thesis by (simp only: visit_returns_iff(2))
qed

text \<open>
  A page with internal links, an external link, a link that gets an image icon from its
  rule and an image, on which nothing throws.
\<close>

theorem process_returns_witness:
  "\<exists>tree' links. process pathEnv archiveOptions []
     (Root [Element ''p'' []
        [noteLink, siteLink, archiveLink, mailLink,
         Element ''img'' [(''src'', Str ''pic.png'')] []]])
     ''index'' = Inr (tree', links)"
proof -
  have links: "\<forall>l\<in>set (hyperlinksAll [Element ''p'' []
        [noteLink, siteLink, archiveLink, mailLink,
         Element ''img'' [(''src'', Str ''pic.png'')] []]]).
      linkReturns pathEnv archiveOptions
        \<lparr> strategy = markdownLinkResolution archiveOptions, allSlugs = [] \<rparr>
        ''index'' (simplifySlug pathEnv ''index'') l"
    by code_simp
  have srcs: "\<forall>s\<in>set (handed pathEnv archiveOptions [Element ''p'' []
        [noteLink, siteLink, archiveLink, mailLink,
         Element ''img'' [(''src'', Str ''pic.png'')] []]]).
      resourceReturns pathEnv
        \<lparr> strategy = markdownLinkResolution archiveOptions, allSlugs = [] \<rparr> ''index'' s"
    by code_simp
  from links srcs show ?thesis by (simp only: process_returns_iff simp_thms)
qed

text \<open>
  The claim as stated fails: a destination with a stray \<^verbatim>\<open>%\<close> is neither an absolute URL
  nor a fragment, the canonical path keeps the \<^verbatim>\<open>%\<close>, and \<^verbatim>\<open>decodeURIComponent\<close> throws a
  URIError that leaves \<^const>\<open>process\<close>.
\<close>

theorem process_throws_on_stray_percent:
  "process pathEnv defaultOptions []
     (Root [Element ''a'' [(''href'', Str ''100%'')] [Text ''x'']]) ''index'' = Inl URIError"
  by code_simp

text \<open>
  So does the TypeError of \<^verbatim>\<open>classes.push\<close> when \<^verbatim>\<open>className\<close> holds a string instead of an
  array.
\<close>

lemma process_throws_on_string_className:
  "process pathEnv defaultOptions []
     (Root [Element ''a'' [(''href'', Str ''notes/foo''), (''className'', Str ''wiki'')]
              [Text ''x'']]) ''index'' = Inl TypeError"
  by code_simp

subsection \<open>C2: the outgoing links\<close>

text \<open>
  C2, as amended. After \<^const>\<open>process\<close> returns, the link list has no duplicates and holds
  exactly the simple slugs of the hyperlinks whose destination, after the substitution
  rules, neither parses as an absolute URL nor starts with \<^verbatim>\<open>#\<close>. A destination that a
  rule has rewritten is among them when the rewritten destination is of that kind.
\<close>

theorem outgoing_links:
  assumes "process E opts ctxAllSlugs (Root cs) slug = Inr (tree', links)"
  shows "distinct links \<and>
     links = fold addSlug
       (internalSlugs E opts \<lparr> strategy = markdownLinkResolution opts, allSlugs = ctxAllSlugs \<rparr>
          slug (simplifySlug E slug) (hyperlinksAll cs)) [] \<and>
     (\<forall>s\<in>set links. \<exists>l\<in>set (hyperlinksAll cs).
        isInternal E (dest (substitute (substitutions opts) (fst l))) \<and>
        (\<exists>d' full. resolveInternal E
           \<lparr> strategy = markdownLinkResolution opts, allSlugs = ctxAllSlugs \<rparr>
           slug (simplifySlug E slug) (dest (substitute (substitutions opts) (fst l)))
           = Inr (d', full, s)))"
proof -
  let ?topts = "\<lparr> strategy = markdownLinkResolution opts, allSlugs = ctxAllSlugs \<rparr>"
  let ?slugs = "internalSlugs E opts ?topts slug (simplifySlug E slug) (hyperlinksAll cs)"
  from assms obtain cs' where
    "visitAll E opts ?topts slug (simplifySlug E slug) cs [] = Inr (cs', links)"
    by (auto simp: process_def Let_def split: sum.splits)
  from visit_outgoing(2) [OF this] have eq: "links = fold addSlug ?slugs []" .
  then have "distinct links" by (simp add: fold_addSlug_distinct)
  moreover from eq have "set links = set ?slugs" by (simp add: fold_addSlug_set)
  then have "\<forall>s\<in>set links. \<exists>l\<in>set (hyperlinksAll cs).
        isInternal E (dest (substitute (substitutions opts) (fst l))) \<and>
        (\<exists>d' full. resolveInternal E ?topts slug (simplifySlug E slug)
           (dest (substitute (substitutions opts) (fst l))) = Inr (d', full, s))"
    using internalSlugs_member [of _ E opts ?topts slug "simplifySlug E slug" "hyperlinksAll cs"]
    by blast
  ultimately show ?thesis using eq by blast
qed

text \<open>
  A page with two links to the same note, one external link and one fragment link: the
  list holds the note once and nothing else.
\<close>

theorem outgoing_links_witness:
  "distinct [''notes/foo''] \<and>
   [''notes/foo''] = fold addSlug
     (internalSlugs pathEnv defaultOptions
        \<lparr> strategy = markdownLinkResolution defaultOptions, allSlugs = [] \<rparr>
        ''index'' (simplifySlug pathEnv ''index'')
        (hyperlinksAll [noteLink, siteLink, aliasLink,
           Element ''a'' [(''href'', Str ''#top'')] [Text ''up'']])) []"
proof -
  have run: "process pathEnv defaultOptions []
      (Root [noteLink, siteLink, aliasLink, Element ''a'' [(''href'', Str ''#top'')] [Text ''up'']])
      ''index'' =
    Inr (Root
      [Element ''a'' [(''href'', Str ''./notes/foo''), (''className'', StrList [''internal'']),
                      (''data-slug'', Str ''notes/foo'')] [Text ''foo''],
       Element ''a'' [(''href'', Str ''https://example.com/x''),
                      (''className'', StrList [''external''])] [Text ''Example'', defaultIcon],
       Element ''a'' [(''href'', Str ''./notes/foo''),
                      (''className'', StrList [''wiki'', ''internal'', ''alias'']),
                      (''data-slug'', Str ''notes/foo'')] [Text ''Foo''],
       Element ''a'' [(''href'', Str ''#top''), (''className'', StrList [''internal'', ''alias''])]
                     [Text ''up'']],
      [''notes/foo''])"
    by code_simp
  note all = outgoing_links [OF run]
  from all have "distinct [''notes/foo'']" by (rule conjunct1)
  moreover from all have "[''notes/foo''] = fold addSlug
     (internalSlugs pathEnv defaultOptions
        \<lparr> strategy = markdownLinkResolution defaultOptions, allSlugs = [] \<rparr>
        ''index'' (simplifySlug pathEnv ''index'')
        (hyperlinksAll [noteLink, siteLink, aliasLink,
           Element ''a'' [(''href'', Str ''#top'')] [Text ''up'']])) []"
    by (rule conjunct1 [OF conjunct2])
  ultimately show ?thesis by (rule conjI)
qed

text \<open>
  The claim as stated fails: the \<^verbatim>\<open>mailto:\<close> link matches a rule and is classified as
  external, yet the rewritten destination is resolved as an internal one and its slug
  enters the link list.
\<close>

theorem matched_link_in_outgoing:
  "process pathEnv mailOptions [] (Root [mailLink]) ''index'' =
     Inr (Root [Element ''a''
                  [(''href'', Str ''./a@b.com''), (''className'', StrList [''external'']),
                   (''data-slug'', Str ''a@b.com'')]
                  [Text ''mail me'', Text envelope]],
          [''a@b.com''])"
  by code_simp

subsection \<open>C3: the first matching rule wins\<close>

text \<open>
  C3. The rules are tried against the raw destination in their declared order. When no
  rule before rule \<open>i\<close> matches and rule \<open>i\<close> does, the rewritten destination and the
  icon are those of rule \<open>i\<close>, whatever rules follow it and whether or not they match:
  the loop has stopped, and the outcome is the one of the list cut after rule \<open>i\<close>.
\<close>

theorem first_match_wins:
  assumes "\<forall>r\<in>set pre. fst r href = None" and "regex href = Some parts"
  shows "substitute (Some (pre @ (regex, sub) # post)) href =
           \<lparr> dest = joinGroups parts, refIcon = iconFor sub None, matched = True \<rparr> \<and>
         substitute (Some (pre @ (regex, sub) # post)) href =
           substitute (Some (pre @ [(regex, sub)])) href"
  using substitute_first [where pre = pre and href = href and regex = regex and parts = parts
          and sub = sub and post = post, OF assms]
        substitute_first [where pre = pre and href = href and regex = regex and parts = parts
          and sub = sub and post = "[]", OF assms]
  by simp

text \<open>Two rules match \<^verbatim>\<open>https://x.org\<close>; the earlier one decides.\<close>

theorem first_match_wins_witness:
  "substitute (Some ([(mailtoRe, Image (AString ''m.png''))]
      @ (httpsRe, Emoji (AString ''A'')) # [(httpsRe, Emoji (AString ''B''))])) ''https://x.org'' =
     \<lparr> dest = ''https://x.org'', refIcon = Some (Text ''A''), matched = True \<rparr>"
proof -
  have before: "\<forall>r\<in>set [(mailtoRe, Image (AString ''m.png''))]. fst r ''https://x.org'' = None"
    by code_simp
  have here: "httpsRe ''https://x.org'' = Some [Some ''https://x.org'', Some ''https://x.org'']"
    by code_simp
  have "joinGroups [Some ''https://x.org'', Some ''https://x.org''] = ''https://x.org''"
    by code_simp
  moreover have "iconFor (Emoji (AString ''A'')) None = Some (Text ''A'')"
    by code_simp
  ultimately show ?thesis
    using first_match_wins [where pre = "[(mailtoRe, Image (AString ''m.png''))]"
        and href = "''https://x.org''" and regex = httpsRe
        and parts = "[Some ''https://x.org'', Some ''https://x.org'']"
        and sub = "Emoji (AString ''A'')" and post = "[(httpsRe, Emoji (AString ''B''))]",
        OF before here]
    by simp
qed

subsection \<open>C4: the destination and the icon of a matching rule\<close>



text \<open>A group that took no part in the match adds nothing.\<close>

lemma joinGroups_undefined: "joinGroups [Some ''xab'', Some ''a'', None, Some ''b''] = ''ab''"
  by code_simp


subsection \<open>C5: the classification class\<close>



subsection \<open>C6: the icon\<close>

text \<open>
  C6. The visitor appends an icon when the destination parses as an absolute URL and the
  default-icon option is on, or when a rule matched, and the claim wants the rule's own
  icon whenever a rule matched. A vector descriptor built with \<^const>\<open>Path\<close> carries no type
  tag, so the \<^verbatim>\<open>switch\<close> builds no icon for it and the link gets the default glyph; the
  same descriptor with its tag written out gets the rule's \<^verbatim>\<open>svg\<close>.
\<close>

theorem untagged_path_rule_gets_default_icon:
  "Path (Untagged (PathD ''M0 0h1v1z'' ''0 0 1 1'')) = Untagged (PathD ''M0 0h1v1z'' ''0 0 1 1'') \<and>
   visitor pathEnv pathOptions absoluteOptions ''index'' ''/'' siteLink [] =
     Inr (Element ''a'' [(''href'', Str ''https://example.com/x''),
                         (''className'', StrList [''external''])]
            [Text ''Example'', defaultIcon], []) \<and>
   visitor pathEnv
       (defaultOptions\<lparr> substitutions :=
          Some [(httpsRe, Tagged (PathD ''M0 0h1v1z'' ''0 0 1 1''))] \<rparr>)
       absoluteOptions ''index'' ''/'' siteLink [] =
     Inr (Element ''a'' [(''href'', Str ''https://example.com/x''),
                         (''className'', StrList [''external''])]
            [Text ''Example'',
             Element ''svg''
               [(''aria-hidden'', Str ''true''), (''class'', Str ''external-icon''),
                (''style'', Str ''max-width:1em;max-height:1em''), (''viewBox'', Str ''0 0 1 1'')]
               [Element ''path'' [(''d'', Str ''M0 0h1v1z'')] []]], [])"
  by code_simp

subsection \<open>C7: the alias class\<close>

text \<open>
  C7, as amended. On a hyperlink element whose content is exactly one text node and on
  which nothing throws, the visitor appends \<^verbatim>\<open>alias\<close> after the classification class
  exactly when no icon is appended (no rule matches, and the destination is no absolute
  URL or the default-icon option is off) and the text differs from the destination as it
  stands after the substitution rules and before the internal resolution. So a link whose
  text equals that destination is never given the class, and neither is a link that has
  received an icon. Classes the element had are kept.
\<close>

theorem alias_class:
  assumes "getProp ps ''href'' = Some (Str href)"
    and "linkReturns E opts topts slug curSlug (href, ps)"
  shows "\<exists>n' out' old.
     visitor E opts topts slug curSlug (Element ''a'' ps [Text v]) out = Inr (n', out') \<and>
     classList ps = Inr old \<and>
     getProp (properties n') ''className'' =
       Some (StrList (old @
         [if canParse E (dest (substitute (substitutions opts) href))
             \<or> ruleMatches (substitutions opts) href
          then ''external'' else ''internal'']
         @ (if \<not> ((canParse E (dest (substitute (substitutions opts) href))
                     \<and> externalLinkIcon opts)
                    \<or> ruleMatches (substitutions opts) href)
               \<and> v \<noteq> dest (substitute (substitutions opts) href)
            then [''alias''] else [])))"
proof -
  from visitor_link_total [OF assms] obtain n' out' where
    v: "visitor E opts topts slug curSlug (Element ''a'' ps [Text v]) out = Inr (n', out')"
    and r: "rewriteLink E opts topts slug curSlug href ps [Text v] out = Inr (n', out')"
    by blast
  from rewriteLink_Inr [OF r] have "\<exists>old. classList ps = Inr old \<and>
     getProp (properties n') ''className'' =
       Some (StrList (old @
         [if canParse E (dest (substitute (substitutions opts) href))
             \<or> ruleMatches (substitutions opts) href
          then ''external'' else ''internal'']
         @ (if \<not> ((canParse E (dest (substitute (substitutions opts) href))
                     \<and> externalLinkIcon opts)
                    \<or> ruleMatches (substitutions opts) href)
               \<and> v \<noteq> dest (substitute (substitutions opts) href)
            then [''alias''] else [])))"
    by (auto simp: Let_def getProp_setProp withAlias_def withIcon_def matched_iff
             split: if_splits)
  with v show ?thesis by blast
qed

text \<open>A wiki link with a label of its own: no icon, the label differs, \<^verbatim>\<open>alias\<close> is appended.\<close>

theorem alias_class_witness:
  "visitor pathEnv defaultOptions absoluteOptions ''index'' ''/'' aliasLink [] =
     Inr (Element ''a'' [(''href'', Str ''./notes/foo''),
                         (''className'', StrList [''wiki'', ''internal'', ''alias'']),
                         (''data-slug'', Str ''notes/foo'')] [Text ''Foo''],
          [''notes/foo'']) \<and>
   (\<exists>n' out' old.
     visitor pathEnv defaultOptions absoluteOptions ''index'' ''/''
       (Element ''a'' [(''href'', Str ''notes/foo''), (''className'', StrList [''wiki''])]
          [Text ''Foo'']) [] = Inr (n', out') \<and>
     classList [(''href'', Str ''notes/foo''), (''className'', StrList [''wiki''])] = Inr old \<and>
     getProp (properties n') ''className'' =
       Some (StrList (old @
         [if canParse pathEnv (dest (substitute (substitutions defaultOptions) ''notes/foo''))
             \<or> ruleMatches (substitutions defaultOptions) ''notes/foo''
          then ''external'' else ''internal'']
         @ (if \<not> ((canParse pathEnv (dest (substitute (substitutions defaultOptions) ''notes/foo''))
                     \<and> externalLinkIcon defaultOptions)
                    \<or> ruleMatches (substitutions defaultOptions) ''notes/foo'')
               \<and> ''Foo'' \<noteq> dest (substitute (substitutions defaultOptions) ''notes/foo'')
            then [''alias''] else []))))"
proof -
  have run: "visitor pathEnv defaultOptions absoluteOptions ''index'' ''/'' aliasLink [] =
     Inr (Element ''a'' [(''href'', Str ''./notes/foo''),
                         (''className'', StrList [''wiki'', ''internal'', ''alias'']),
                         (''data-slug'', Str ''notes/foo'')] [Text ''Foo''],
          [''notes/foo''])"
    by code_simp
  have href: "getProp [(''href'', Str ''notes/foo''), (''className'', StrList [''wiki''])] ''href''
      = Some (Str ''notes/foo'')"
    by code_simp
  have quiet: "linkReturns pathEnv defaultOptions absoluteOptions ''index'' ''/''
      (''notes/foo'', [(''href'', Str ''notes/foo''), (''className'', StrList [''wiki''])])"
    by code_simp
  from run alias_class [OF href quiet, of "''Foo''" "[]"] show ?thesis
    by (rule conjI)
qed

text \<open>
  The claim as stated fails twice over. The label of an external link differs from its
  destination, but the default icon has been appended before the test, the element has
  two children, and no \<^verbatim>\<open>alias\<close> is added. And the test precedes the internal
  resolution: the label \<^verbatim>\<open>notes/foo\<close> equals the destination as written, no \<^verbatim>\<open>alias\<close> is
  added, and the final destination \<^verbatim>\<open>./notes/foo\<close> differs from the label.
\<close>

theorem external_alias_not_marked:
  "visitor pathEnv defaultOptions absoluteOptions ''index'' ''/''
     (Element ''a'' [(''href'', Str ''https://example.com/x'')] [Text ''Example'']) [] =
     Inr (Element ''a'' [(''href'', Str ''https://example.com/x''),
                         (''className'', StrList [''external''])]
            [Text ''Example'', defaultIcon], []) \<and>
   visitor pathEnv (defaultOptions\<lparr>prettyLinks := False\<rparr>) absoluteOptions ''index'' ''/''
     (Element ''a'' [(''href'', Str ''notes/foo'')] [Text ''notes/foo'']) [] =
     Inr (Element ''a'' [(''href'', Str ''./notes/foo''), (''className'', StrList [''internal'']),
                         (''data-slug'', Str ''notes/foo'')] [Text ''notes/foo''],
          [''notes/foo''])"
  by code_simp

subsection \<open>C8: pretty links\<close>

text \<open>
  C8. Turning the pretty-links option on changes nothing but the visible text. Compared
  with the run with the option off, the visitor fails in the same way or returns the same
  element with the same properties (the destination among them) and the same outgoing
  set; the children differ only when the link is internal (its destination neither
  parses as an absolute URL nor starts with \<^verbatim>\<open>#\<close>), the content is exactly one text node
  and the text does not start with \<^verbatim>\<open>#\<close>, and then the text is replaced by its final
  path segment.
\<close>

theorem pretty_links_frame:
  assumes "getProp ps ''href'' = Some (Str href)"
  shows "(case visitor E (opts\<lparr>prettyLinks := False\<rparr>) topts slug curSlug (Element ''a'' ps cs) out of
       Inl e \<Rightarrow>
         visitor E (opts\<lparr>prettyLinks := True\<rparr>) topts slug curSlug (Element ''a'' ps cs) out = Inl e
     | Inr (n, out') \<Rightarrow>
         visitor E (opts\<lparr>prettyLinks := True\<rparr>) topts slug curSlug (Element ''a'' ps cs) out =
           Inr (Element (tagName n) (properties n)
                  (case children n of
                     [Text v] \<Rightarrow>
                       if isInternal E (dest (substitute (substitutions opts) href))
                          \<and> \<not> startsWith v ''#''
                       then [Text (basename v)] else children n
                   | _ \<Rightarrow> children n),
                out'))"
proof (cases "linkCore E opts topts slug curSlug href ps cs out")
  case (Inl e)
  with assms show ?thesis
    by (simp add: visitor_link rewriteLink_def linkCore_prettyLinks)
next
  case (Inr r)
  obtain ps' cs' out' where r: "r = (ps', cs', out')" by (cases r)
  with Inr assms show ?thesis
    by (simp add: visitor_link rewriteLink_def linkCore_prettyLinks prettify_off)
       (auto simp: prettify_def split: list.splits node.splits)
qed

text \<open>The link to \<^verbatim>\<open>notes/foo\<close> is shown as \<^verbatim>\<open>foo\<close>, with the destination of the plain run.\<close>

theorem pretty_links_frame_witness:
  "visitor pathEnv (defaultOptions\<lparr>prettyLinks := True\<rparr>) absoluteOptions ''index'' ''/''
     (Element ''a'' [(''href'', Str ''notes/foo'')] [Text ''notes/foo'']) [] =
   Inr (Element ''a'' [(''href'', Str ''./notes/foo''), (''className'', StrList [''internal'']),
                       (''data-slug'', Str ''notes/foo'')] [Text ''foo''],
        [''notes/foo''])"
proof -
  have href: "getProp [(''href'', Str ''notes/foo'')] ''href'' = Some (Str ''notes/foo'')"
    by code_simp
  have plain: "visitor pathEnv (defaultOptions\<lparr>prettyLinks := False\<rparr>) absoluteOptions
      ''index'' ''/'' (Element ''a'' [(''href'', Str ''notes/foo'')] [Text ''notes/foo'']) [] =
    Inr (Element ''a'' [(''href'', Str ''./notes/foo''), (''className'', StrList [''internal'']),
                        (''data-slug'', Str ''notes/foo'')] [Text ''notes/foo''],
         [''notes/foo''])"
    by code_simp
  have internal: "isInternal pathEnv (dest (substitute (substitutions defaultOptions) ''notes/foo''))"
    by code_simp
  have label: "\<not> startsWith ''notes/foo'' ''#''" "basename ''notes/foo'' = ''foo''"
    by code_simp+
  from pretty_links_frame [OF href, where E = pathEnv and opts = defaultOptions
      and topts = absoluteOptions and slug = "''index''" and curSlug = "''/''"
      and cs = "[Text ''notes/foo'']" and out = "[]"]
  show ?thesis
    by (simp only: plain sum.case prod.case node.sel list.case node.case internal label
          simp_thms if_True)
qed

subsection \<open>C9: the data-slug attribute\<close>

text \<open>
  C9, as amended. On a hyperlink with an internal destination on which nothing throws,
  the visitor stores on \<^verbatim>\<open>data-slug\<close> the full slug of the resolved destination: the path
  that the URL constructor gives for it against the synthetic base, cut at the anchor,
  with \<^verbatim>\<open>index\<close> appended after a trailing slash, the leading slash stripped, and
  percent-decoded. It adds the simple slug of that value to the outgoing set. The stored
  value is the slug before simplification; nothing makes it a fixed point of the
  normalization.
\<close>

theorem data_slug_is_full_slug:
  assumes "getProp ps ''href'' = Some (Str href)"
    and "linkReturns E opts topts slug curSlug (href, ps)"
    and "isInternal E (dest (substitute (substitutions opts) href))"
  shows "\<exists>n' out' d' p full.
       visitor E opts topts slug curSlug (Element ''a'' ps cs) out = Inr (n', out') \<and>
       transformLink E slug (dest (substitute (substitutions opts) href)) topts = Inr d' \<and>
       urlPathname E d' (''https://base.com/'' @ stripSlashes E curSlug True) = Inr p \<and>
       decodeURIComponent (stripSlashes E
          (if endsWith (fst (splitAnchor E p)) ''/''
           then fst (splitAnchor E p) @ ''index'' else fst (splitAnchor E p)) True) = Inr full \<and>
       getProp (properties n') ''data-slug'' = Some (Str full) \<and>
       out' = addSlug (simplifySlug E full) out"
proof -
  from visitor_link_total [OF assms(1,2)] obtain n' out' where
    v: "visitor E opts topts slug curSlug (Element ''a'' ps cs) out = Inr (n', out')"
    and r: "rewriteLink E opts topts slug curSlug href ps cs out = Inr (n', out')"
    by blast
  from rewriteLink_Inr [OF r] assms(3)
  obtain d' full simple ps2 where
    res: "resolveInternal E topts slug curSlug (dest (substitute (substitutions opts) href))
       = Inr (d', full, simple)"
    and n': "properties n' = setProp ''data-slug'' (Str full) (setProp ''href'' (Str d') ps2)"
    and out': "out' = addSlug simple out"
    by (auto simp: Let_def)
  from resolveInternal_steps [OF res] obtain p where
    "transformLink E slug (dest (substitute (substitutions opts) href)) topts = Inr d'"
    "urlPathname E d' (''https://base.com/'' @ stripSlashes E curSlug True) = Inr p"
    "decodeURIComponent (stripSlashes E
        (if endsWith (fst (splitAnchor E p)) ''/''
         then fst (splitAnchor E p) @ ''index'' else fst (splitAnchor E p)) True) = Inr full"
    "simple = simplifySlug E full"
    by blast
  moreover from n' have "getProp (properties n') ''data-slug'' = Some (Str full)"
    by (simp add: getProp_setProp)
  ultimately show ?thesis using v out' by blast
qed

text \<open>
  A link to a folder with a name outside ASCII: the canonical path carries the escapes
  \<^verbatim>\<open>%C3%A9\<close> and ends in a slash, the stored slug is decoded and ends in \<^verbatim>\<open>index\<close>, and the
  outgoing set gets the folder.
\<close>

theorem data_slug_is_full_slug_witness:
  "visitor pathEnv defaultOptions absoluteOptions ''index'' ''/''
       (Element ''a'' [(''href'', Str (''docs/'' @ cafe @ ''/''))] [Text ''menu'']) [] =
     Inr (Element ''a'' [(''href'', Str (''./docs/'' @ cafe @ ''/'')),
                         (''className'', StrList [''internal'', ''alias'']),
                         (''data-slug'', Str (''docs/'' @ cafe @ ''/index''))] [Text ''menu''],
          [''docs/'' @ cafe @ ''/'']) \<and>
   urlPathname pathEnv (''./docs/'' @ cafe @ ''/'') ''https://base.com/'' = Inr ''/docs/caf%C3%A9/'' \<and>
   (\<exists>n' out' d' p full.
       visitor pathEnv defaultOptions absoluteOptions ''index'' ''/''
         (Element ''a'' [(''href'', Str (''docs/'' @ cafe @ ''/''))] [Text ''menu'']) []
         = Inr (n', out') \<and>
       transformLink pathEnv ''index''
         (dest (substitute (substitutions defaultOptions) (''docs/'' @ cafe @ ''/'')))
         absoluteOptions = Inr d' \<and>
       urlPathname pathEnv d' (''https://base.com/'' @ stripSlashes pathEnv ''/'' True) = Inr p \<and>
       decodeURIComponent (stripSlashes pathEnv
          (if endsWith (fst (splitAnchor pathEnv p)) ''/''
           then fst (splitAnchor pathEnv p) @ ''index'' else fst (splitAnchor pathEnv p)) True)
         = Inr full \<and>
       getProp (properties n') ''data-slug'' = Some (Str full) \<and>
       out' = addSlug (simplifySlug pathEnv full) [])"
proof -
  have run: "visitor pathEnv defaultOptions absoluteOptions ''index'' ''/''
       (Element ''a'' [(''href'', Str (''docs/'' @ cafe @ ''/''))] [Text ''menu'']) [] =
     Inr (Element ''a'' [(''href'', Str (''./docs/'' @ cafe @ ''/'')),
                         (''className'', StrList [''internal'', ''alias'']),
                         (''data-slug'', Str (''docs/'' @ cafe @ ''/index''))] [Text ''menu''],
          [''docs/'' @ cafe @ ''/''])"
    by code_simp
  have path: "urlPathname pathEnv (''./docs/'' @ cafe @ ''/'') ''https://base.com/''
      = Inr ''/docs/caf%C3%A9/''"
    by code_simp
  have href: "getProp [(''href'', Str (''docs/'' @ cafe @ ''/''))] ''href''
      = Some (Str (''docs/'' @ cafe @ ''/''))"
    by code_simp
  have quiet: "linkReturns pathEnv defaultOptions absoluteOptions ''index'' ''/''
      (''docs/'' @ cafe @ ''/'', [(''href'', Str (''docs/'' @ cafe @ ''/''))])"
    by code_simp
  have internal: "isInternal pathEnv
      (dest (substitute (substitutions defaultOptions) (''docs/'' @ cafe @ ''/'')))"
    by code_simp
  note inst = data_slug_is_full_slug [OF href quiet internal, of "[Text ''menu'']" "[]"]
  from run path inst show ?thesis by (intro conjI)
qed

text \<open>
  The claim as stated fails. On the page \<^verbatim>\<open>projects/bar\<close> the link to \<^verbatim>\<open>notes/foo\<close> gets the
  slug \<^verbatim>\<open>notes/foo\<close>; canonicalised against the same base once more, that slug becomes
  \<^verbatim>\<open>projects/notes/foo\<close>. On a top-level page the link to \<^verbatim>\<open>docs/\<close> gets \<^verbatim>\<open>docs/index\<close>,
  which the simplification turns into \<^verbatim>\<open>docs/\<close>.
\<close>

theorem data_slug_not_fixed_point:
  "visitor pathEnv defaultOptions absoluteOptions ''projects/bar''
       (simplifySlug pathEnv ''projects/bar'') noteLink [] =
     Inr (Element ''a'' [(''href'', Str ''../notes/foo''), (''className'', StrList [''internal'']),
                         (''data-slug'', Str ''notes/foo'')] [Text ''foo''],
          [''notes/foo'']) \<and>
   normalizeDest pathEnv (simplifySlug pathEnv ''projects/bar'') ''notes/foo'' =
     Inr (''projects/notes/foo'', ''projects/notes/foo'') \<and>
   visitor pathEnv defaultOptions absoluteOptions ''index'' (simplifySlug pathEnv ''index'')
       (Element ''a'' [(''href'', Str ''docs/'')] [Text ''docs/'']) [] =
     Inr (Element ''a'' [(''href'', Str ''./docs/''), (''className'', StrList [''internal'']),
                         (''data-slug'', Str ''docs/index'')] [Text ''docs''],
          [''docs/'']) \<and>
   normalizeDest pathEnv (simplifySlug pathEnv ''index'') ''docs/index'' =
     Inr (''docs/index'', ''docs/'')"
  by code_simp

subsection \<open>C10: the new-tab directive\<close>

text \<open>
  C10. The visitor sets \<^verbatim>\<open>target\<close> to \<^verbatim>\<open>_blank\<close> exactly when the new-tab option is on and
  the destination, after the substitution rules, parses as an absolute URL; otherwise it
  leaves the property as it found it. A link that is external only because a rule
  matched, with a rewritten destination that is no absolute URL, gets no directive.
\<close>

theorem new_tab_only_for_absolute_urls:
  assumes "getProp ps ''href'' = Some (Str href)"
    and "visitor E opts topts slug curSlug (Element ''a'' ps cs) out = Inr (n', out')"
  shows "getProp (properties n') ''target'' =
     (if canParse E (dest (substitute (substitutions opts) href)) \<and> openLinksInNewTab opts
      then Some (Str ''_blank'') else getProp ps ''target'')"
  using rewriteLink_Inr [OF visitor_link_Inr [OF assms]]
  by (auto simp: Let_def getProp_setProp split: if_splits)

text \<open>
  The \<^verbatim>\<open>mailto:\<close> link with the new-tab option on: classified as external by its rule,
  and without a \<^verbatim>\<open>target\<close>.
\<close>

theorem new_tab_only_for_absolute_urls_witness:
  "getProp [(''href'', Str ''./a@b.com''), (''className'', StrList [''external'']),
            (''data-slug'', Str ''a@b.com'')] ''target'' = None"
proof -
  have href: "getProp [(''href'', Str ''mailto:a@b.com'')] ''href'' = Some (Str ''mailto:a@b.com'')"
    by code_simp
  have run: "visitor pathEnv (mailOptions\<lparr> openLinksInNewTab := True \<rparr>) absoluteOptions
      ''index'' ''/'' (Element ''a'' [(''href'', Str ''mailto:a@b.com'')] [Text ''mail me'']) [] =
    Inr (Element ''a'' [(''href'', Str ''./a@b.com''), (''className'', StrList [''external'']),
                        (''data-slug'', Str ''a@b.com'')] [Text ''mail me'', Text envelope],
         [''a@b.com''])"
    by code_simp
  have "(if canParse pathEnv
            (dest (substitute (substitutions (mailOptions\<lparr> openLinksInNewTab := True \<rparr>))
               ''mailto:a@b.com''))
          \<and> openLinksInNewTab (mailOptions\<lparr> openLinksInNewTab := True \<rparr>)
        then Some (Str ''_blank'') else getProp [(''href'', Str ''mailto:a@b.com'')] ''target'')
      = None"
    by code_simp
  with new_tab_only_for_absolute_urls [OF href run] show ?thesis by simp
qed

end
